theory Spec2Isabelle
  imports Complex_Main
begin

section \<open>Python text primitives used by the script\<close>

text \<open>
  A Python \<open>str\<close> is modelled as a \<open>string\<close>: a list of characters with code points
  below 256. The descriptor is plain ASCII in practice; the whitespace set below is
  what \<open>str.isspace\<close> accepts among those code points.
\<close>

abbreviation LF :: char where
  "LF \<equiv> CHR 0x0A"

abbreviation CR :: char where
  "CR \<equiv> CHR 0x0D"

abbreviation QUOTE :: char where
  "QUOTE \<equiv> CHR 0x27"

definition is_space :: "char \<Rightarrow> bool" where
  "is_space c =
     (let n = (of_char c :: nat)
      in (9 \<le> n \<and> n \<le> 13) \<or> (28 \<le> n \<and> n \<le> 32) \<or> n = 133 \<or> n = 160)"

definition lstrip :: "string \<Rightarrow> string" where
  "lstrip s = dropWhile is_space s"

definition rstrip :: "string \<Rightarrow> string" where
  "rstrip s = rev (dropWhile is_space (rev s))"

definition strip :: "string \<Rightarrow> string" where
  \<comment> \<open>\<open>str.strip()\<close> with no argument\<close>
  "strip s = rstrip (lstrip s)"

definition startswith :: "string \<Rightarrow> string \<Rightarrow> bool" where
  \<comment> \<open>\<open>s.startswith(p)\<close>\<close>
  "startswith s p = (take (length p) s = p)"

fun py_find :: "string \<Rightarrow> string \<Rightarrow> int" where
  \<comment> \<open>\<open>s.find(sub)\<close>: the lowest index where \<open>sub\<close> occurs, \<open>-1\<close> when it does not\<close>
  "py_find [] sub = (if sub = [] then 0 else - 1)"
| "py_find (c # cs) sub =
     (if startswith (c # cs) sub then 0
      else (let r = py_find cs sub in if r < 0 then - 1 else r + 1))"

definition slice_to :: "string \<Rightarrow> int \<Rightarrow> string" where
  \<comment> \<open>\<open>s[:k]\<close>: a negative \<open>k\<close> counts from the end, and the bound is clamped\<close>
  "slice_to s k =
     (let n = int (length s);
          j = (if k < 0 then max (k + n) 0 else min k n)
      in take (nat j) s)"

section \<open>Text files\<close>

text \<open>
  The store maps a path to the text of the file there (\<open>files\<close>) and records every
  write performed, oldest first (\<open>written\<close>), so that a write that puts the same text
  back is still visible. The text is the decoded content of the file: decoding and
  encoding UTF-8 are inverse to each other on a file that decodes, and a file that does
  not decode is outside the model. \<open>open(path, "r")\<close> reads with
  universal newlines: \<open>\r\n\<close> and a lone \<open>\r\<close> both arrive as \<open>\n\<close>. \<open>readlines\<close>
  cuts the text after every \<open>\n\<close> and keeps the terminator on each line; a last line
  without one is kept as it is. \<open>writelines\<close> writes the lines one after the other
  (on a POSIX system \<open>\n\<close> is written as it is).
\<close>

record store =
  files :: "string \<rightharpoonup> string"
  written :: "(string \<times> string) list"

fun universal_newlines :: "string \<Rightarrow> string" where
  "universal_newlines [] = []"
| "universal_newlines [c] = (if c = CR then [LF] else [c])"
| "universal_newlines (c # d # cs) =
     (if c = CR then
        (if d = LF then LF # universal_newlines cs else LF # universal_newlines (d # cs))
      else c # universal_newlines (d # cs))"

fun split_lines :: "string \<Rightarrow> string list" where
  "split_lines [] = []"
| "split_lines (c # cs) =
     (if c = LF then [c] # split_lines cs
      else (case split_lines cs of [] \<Rightarrow> [[c]] | l # ls \<Rightarrow> (c # l) # ls))"

definition readlines :: "string \<Rightarrow> string list" where
  "readlines content = split_lines (universal_newlines content)"

definition writelines :: "string list \<Rightarrow> string" where
  "writelines ls = concat ls"

section \<open>The patch-type corrector\<close>

text \<open>
  The loop of \<open>enforce_patch_type\<close> keeps two flags for its position, \<open>in_patch\<close> and
  \<open>seen_name\<close>, the flag \<open>changed\<close> and the list \<open>updated\<close> of the lines to write.
\<close>

record scan_state =
  in_patch :: bool
  seen_name :: bool
  changed :: bool
  updated :: "string list"

definition init_state :: scan_state where
  "init_state = \<lparr>in_patch = False, seen_name = False, changed = False, updated = []\<rparr>"

definition rewrite_line :: "string \<Rightarrow> string \<Rightarrow> string" where
  \<comment> \<open>\<open>indent = line[: line.find("type")]\<close>, then \<open>f"{indent}type {patch_type};\n"\<close>\<close>
  "rewrite_line patch_type line =
     slice_to line (py_find line ''type'') @ ''type '' @ patch_type @ '';'' @ [LF]"

definition scan_line :: "string \<Rightarrow> string \<Rightarrow> scan_state \<Rightarrow> string \<Rightarrow> scan_state" where
  \<comment> \<open>one pass through the body of the \<open>for\<close> loop\<close>
  "scan_line patch_name patch_type s line =
     (let stripped = strip line;
          s1 = (if \<not> in_patch s then
                  (if stripped = patch_name then s\<lparr>seen_name := True\<rparr>
                   else if seen_name s \<and> startswith stripped ''{''
                        then s\<lparr>in_patch := True, seen_name := False\<rparr>
                   else s)
                else s);
          rewrite = (in_patch s1 \<and> startswith stripped ''type'');
          line' = (if rewrite then rewrite_line patch_type line else line);
          s2 = (if rewrite then s1\<lparr>changed := True\<rparr> else s1);
          s3 = (if in_patch s2 \<and> startswith stripped ''}'' then s2\<lparr>in_patch := False\<rparr> else s2)
      in s3\<lparr>updated := updated s3 @ [line']\<rparr>)"

fun scan_lines :: "string \<Rightarrow> string \<Rightarrow> scan_state \<Rightarrow> string list \<Rightarrow> scan_state" where
  "scan_lines patch_name patch_type s [] = s"
| "scan_lines patch_name patch_type s (line # rest) =
     scan_lines patch_name patch_type (scan_line patch_name patch_type s line) rest"

datatype error = FileNotFoundError string | RuntimeError string

definition failure_message :: "string \<Rightarrow> string \<Rightarrow> string \<Rightarrow> string" where
  "failure_message blockmesh_path patch_name patch_type =
     ''Failed to set patch '' @ [QUOTE] @ patch_name @ [QUOTE] @ '' type to '' @ [QUOTE]
       @ patch_type @ [QUOTE] @ '' in '' @ blockmesh_path @ ''.''"

definition enforce_patch_type ::
    "store \<Rightarrow> string \<Rightarrow> string \<Rightarrow> string \<Rightarrow> store \<times> error option" where
  \<comment> \<open>the store after the call, and the exception raised if any\<close>
  "enforce_patch_type fs blockmesh_path patch_name patch_type =
     (case files fs blockmesh_path of
        None \<Rightarrow> (fs, Some (FileNotFoundError blockmesh_path))
      | Some content \<Rightarrow>
          (let lines = readlines content;
               s = scan_lines patch_name patch_type init_state lines;
               text = writelines (updated s);
               fs' = fs\<lparr>files := (files fs)(blockmesh_path \<mapsto> text),
                        written := written fs @ [(blockmesh_path, text)]\<rparr>
           in if \<not> changed s
              then (fs', Some (RuntimeError (failure_message blockmesh_path patch_name patch_type)))
              else (fs', None)))"

section \<open>The symmetry type resolved by the run driver\<close>

text \<open>
  A configuration is the dictionary \<open>yaml.safe_load\<close> returns. Of the values YAML can
  hold, the model has \<open>None\<close>, strings, integers and booleans; floats, lists and
  mappings are left out.
\<close>

datatype pyval = VNone | VStr string | VInt int | VBool bool

definition truthy :: "pyval \<Rightarrow> bool" where
  "truthy v = (case v of VNone \<Rightarrow> False | VStr s \<Rightarrow> s \<noteq> [] | VInt i \<Rightarrow> i \<noteq> 0 | VBool b \<Rightarrow> b)"

function digits :: "nat \<Rightarrow> string" where
  "digits n = (if n < 10 then [char_of (48 + n)] else digits (n div 10) @ [char_of (48 + n mod 10)])"
  by pat_completeness auto
termination
  by (relation "measure id") auto

definition py_str :: "pyval \<Rightarrow> string" where
  \<comment> \<open>\<open>str(v)\<close>\<close>
  "py_str v =
     (case v of
        VNone \<Rightarrow> ''None''
      | VStr s \<Rightarrow> s
      | VInt i \<Rightarrow> (if i < 0 then CHR ''-'' # digits (nat (- i)) else digits (nat i))
      | VBool b \<Rightarrow> (if b then ''True'' else ''False''))"

definition lower_char :: "char \<Rightarrow> char" where
  \<comment> \<open>the lower-case mapping of the code points below 256\<close>
  "lower_char c =
     (let n = (of_char c :: nat)
      in if (65 \<le> n \<and> n \<le> 90) \<or> (192 \<le> n \<and> n \<le> 222 \<and> n \<noteq> 215) then char_of (n + 32) else c)"

definition lower :: "string \<Rightarrow> string" where
  "lower s = map lower_char s"

definition cfg_get :: "(string \<rightharpoonup> pyval) \<Rightarrow> string \<Rightarrow> pyval" where
  \<comment> \<open>\<open>cfg.get(key)\<close>: \<open>None\<close> for a key that is not there\<close>
  "cfg_get cfg key = (case cfg key of None \<Rightarrow> VNone | Some v \<Rightarrow> v)"

definition sym_type :: "(string \<rightharpoonup> pyval) \<Rightarrow> pyval" where
  \<comment> \<open>the value \<open>main\<close> passes on as \<open>symmetry_patch_type\<close>\<close>
  "sym_type cfg =
     (let v = cfg_get cfg ''symmetry_patch_type'';
          t = (if truthy v then v else VStr ''symmetry'')
      in if lower (py_str t) = ''symmetryplane'' then VStr ''symmetry'' else t)"

definition caseless_equal :: "string \<Rightarrow> string \<Rightarrow> bool" where
  \<comment> \<open>equal up to the case of letters\<close>
  "caseless_equal a b = (lower a = lower b)"

section \<open>The mesh descriptor builder\<close>

text \<open>
  The mesh engine is an external library. The builder's part is the sequence of calls
  it makes; the text the engine serialises from the calls made so far is a parameter.
  Lengths and sizes are floats that the builder only passes on; they are modelled as
  reals, and the literal \<open>1.2\<close> as the number it is written as. The debug artefact the
  engine may write is not part of the store.
\<close>

type_synonym vec = "real \<times> real \<times> real"

record chop_spec =
  count :: int
  end_size :: "real option"
  c2c_expansion :: "real option"

datatype engine_call =
    Mesh_new
  | QuarterCylinder_new vec vec vec
  | Chop_axial chop_spec
  | Chop_radial chop_spec
  | Chop_tangential chop_spec
  | Set_start_patch string
  | Set_end_patch string
  | Set_outer_patch string
  | Set_symmetry_patch string
  | Mesh_add
  | Set_default_patch string string
  | Makedirs string
  | Mesh_write string "string option"

record build_args =
  length_arg :: real
  radius :: real
  axial_cells :: int
  radial_cells :: int
  tangential_cells :: int
  wall_thickness :: "real option"
  wall_patch :: string
  symmetry_patch :: string
  symmetry_patch_type :: string
  start_patch :: string
  end_patch :: string
  output_path :: string
  debug_vtk :: "string option"

definition uniform_chop :: "int \<Rightarrow> chop_spec" where
  \<comment> \<open>a chop call with \<open>count\<close> as its only argument\<close>
  "uniform_chop n = \<lparr>count = n, end_size = None, c2c_expansion = None\<rparr>"

definition dirname :: "string \<Rightarrow> string" where
  \<comment> \<open>\<open>os.path.dirname\<close> of a POSIX path\<close>
  "dirname p =
     (let head = rev (dropWhile (\<lambda>c. c \<noteq> CHR ''/'') (rev p))
      in if head \<noteq> [] \<and> \<not> list_all (\<lambda>c. c = CHR ''/'') head
         then rev (dropWhile (\<lambda>c. c = CHR ''/'') (rev head))
         else head)"

definition engine_calls :: "build_args \<Rightarrow> engine_call list" where
  \<comment> \<open>the calls up to and including \<open>mesh.set_default_patch\<close>, in program order\<close>
  "engine_calls a =
     [Mesh_new,
      QuarterCylinder_new (0, 0, 0) (0, 0, length_arg a) (radius a, 0, 0),
      Chop_axial (uniform_chop (axial_cells a)),
      (case wall_thickness a of
         None \<Rightarrow> Chop_radial (uniform_chop (radial_cells a))
       | Some w \<Rightarrow>
           Chop_radial \<lparr>count = radial_cells a, end_size = Some w, c2c_expansion = Some 1.2\<rparr>),
      Chop_tangential (uniform_chop (tangential_cells a)),
      Set_start_patch (start_patch a),
      Set_end_patch (end_patch a),
      Set_outer_patch (wall_patch a),
      Set_symmetry_patch (symmetry_patch a),
      Mesh_add,
      Set_default_patch ''default'' (wall_patch a)]"

definition build_quarter_cylinder ::
    "(engine_call list \<Rightarrow> string) \<Rightarrow> store \<Rightarrow> build_args
       \<Rightarrow> engine_call list \<times> store \<times> (error + string)" where
  \<comment> \<open>the calls made, the store afterwards, and the exception raised or the path returned;
      \<open>os.makedirs\<close> of the empty path raises\<close>
  "build_quarter_cylinder serialise fs a =
     (let calls = engine_calls a;
          dir = dirname (output_path a);
          calls1 = calls @ [Makedirs dir]
      in if dir = [] then (calls1, fs, Inl (FileNotFoundError dir))
         else
           (let text = serialise calls;
                calls2 = calls1 @ [Mesh_write (output_path a) (debug_vtk a)];
                fs1 = fs\<lparr>files := (files fs)(output_path a \<mapsto> text),
                         written := written fs @ [(output_path a, text)]\<rparr>;
                (fs2, err) = enforce_patch_type fs1 (output_path a) (symmetry_patch a)
                               (symmetry_patch_type a)
            in case err of
                 Some e \<Rightarrow> (calls2, fs2, Inl e)
               | None \<Rightarrow> (calls2, fs2, Inr (output_path a))))"

fun radial_chops :: "engine_call list \<Rightarrow> chop_spec list" where
  \<comment> \<open>the radial chop requests among the calls\<close>
  "radial_chops [] = []"
| "radial_chops (Chop_radial c # cs) = c # radial_chops cs"
| "radial_chops (_ # cs) = radial_chops cs"

fun proper_lines :: "string list \<Rightarrow> bool" where
  \<comment> \<open>the shape of what \<open>readlines\<close> returns: no line is empty, a line end stands only at the
      end of a line, and every line but the last has one\<close>
  "proper_lines [] = True"
| "proper_lines [l] = (l \<noteq> [] \<and> LF \<notin> set (butlast l))"
| "proper_lines (l # m # ls) =
     (l \<noteq> [] \<and> LF \<notin> set (butlast l) \<and> last l = LF \<and> proper_lines (m # ls))"

lemma scan_lines_append:
  "scan_lines n t s (xs @ ys) = scan_lines n t (scan_lines n t s xs) ys"
  by (induction xs arbitrary: s) simp_all

section \<open>The builder's calls\<close>

lemma radial_chops_append: "radial_chops (xs @ ys) = radial_chops xs @ radial_chops ys"
  by (induction xs rule: radial_chops.induct) simp_all

lemma radial_chops_engine_calls:
  "radial_chops (engine_calls a) =
     [case wall_thickness a of
        None \<Rightarrow> uniform_chop (radial_cells a)
      | Some w \<Rightarrow> \<lparr>count = radial_cells a, end_size = Some w, c2c_expansion = Some 1.2\<rparr>]"
  by (simp add: engine_calls_def split: option.split)

lemma fst_build:
  "fst (build_quarter_cylinder ser fs a) =
     engine_calls a @ Makedirs (dirname (output_path a)) #
       (if dirname (output_path a) = [] then [] else [Mesh_write (output_path a) (debug_vtk a)])"
  by (simp add: build_quarter_cylinder_def Let_def split: prod.split option.split)

text \<open>
  Claim C7. Whatever the cell count \<open>n\<close> (so for every positive one): with no wall
  thickness the builder makes one radial chop request, with the count \<open>n\<close> and no
  grading argument; with a wall thickness \<open>w\<close> it makes one radial chop request, with
  the count \<open>n\<close>, the end size \<open>w\<close> itself and the expansion ratio \<open>1.2\<close>.
\<close>

theorem radial_chop_policy:
  "radial_chops (fst (build_quarter_cylinder ser fs
       (a\<lparr>radial_cells := n, wall_thickness := None\<rparr>)))
     = [\<lparr>count = n, end_size = None, c2c_expansion = None\<rparr>]
   \<and> radial_chops (fst (build_quarter_cylinder ser fs
       (a\<lparr>radial_cells := n, wall_thickness := Some w\<rparr>)))
     = [\<lparr>count = n, end_size = Some w, c2c_expansion = Some 1.2\<rparr>]"
  by (simp add: fst_build radial_chops_append radial_chops_engine_calls uniform_chop_def)

text \<open>
  Claim C10. The calls of \<open>build_quarter_cylinder\<close> are: five calls that create and
  chop the geometry; the four patch assignments (start, end, outer wall, symmetry);
  \<open>mesh.add\<close>; then a fifth assignment, \<open>set_default_patch\<close> with the name
  \<open>"default"\<close> and, as its kind, the wall patch name; and only after that the creation
  of the directory and the serialisation.
\<close>

theorem default_patch_assignment:
  "\<exists>geometry io.
     fst (build_quarter_cylinder ser fs a) =
       geometry @
       [Set_start_patch (start_patch a), Set_end_patch (end_patch a),
        Set_outer_patch (wall_patch a), Set_symmetry_patch (symmetry_patch a),
        Mesh_add, Set_default_patch ''default'' (wall_patch a)] @ io
     \<and> length geometry = 5
     \<and> (io = [Makedirs (dirname (output_path a))] \<or>
        io = [Makedirs (dirname (output_path a)), Mesh_write (output_path a) (debug_vtk a)])"
proof (intro exI conjI)
  show "fst (build_quarter_cylinder ser fs a) =
       take 5 (engine_calls a) @
       [Set_start_patch (start_patch a), Set_end_patch (end_patch a),
        Set_outer_patch (wall_patch a), Set_symmetry_patch (symmetry_patch a),
        Mesh_add, Set_default_patch ''default'' (wall_patch a)] @
       drop 11 (fst (build_quarter_cylinder ser fs a))"
    by (simp add: fst_build engine_calls_def)
  show "length (take 5 (engine_calls a)) = 5"
    by (simp add: engine_calls_def)
  show "drop 11 (fst (build_quarter_cylinder ser fs a)) = [Makedirs (dirname (output_path a))] \<or>
        drop 11 (fst (build_quarter_cylinder ser fs a)) =
          [Makedirs (dirname (output_path a)), Mesh_write (output_path a) (debug_vtk a)]"
    by (simp add: fst_build engine_calls_def)
qed

section \<open>The resolved symmetry type\<close>

lemma lower_symmetryplane: "lower ''symmetryplane'' = ''symmetryplane''"
  by code_simp

lemma sym_type_falsy:
  "\<not> truthy v \<Longrightarrow> sym_type (cfg(''symmetry_patch_type'' \<mapsto> v)) = VStr ''symmetry''"
proof -
  have "lower ''symmetry'' \<noteq> ''symmetryplane''"
    by (simp add: lower_def)
  then show "\<not> truthy v \<Longrightarrow> ?thesis"
    by (simp add: sym_type_def cfg_get_def py_str_def)
qed

lemma sym_type_absent:
  "cfg ''symmetry_patch_type'' = None \<Longrightarrow> sym_type cfg = VStr ''symmetry''"
proof -
  have "lower ''symmetry'' \<noteq> ''symmetryplane''"
    by (simp add: lower_def)
  then show "cfg ''symmetry_patch_type'' = None \<Longrightarrow> ?thesis"
    by (simp add: sym_type_def cfg_get_def py_str_def truthy_def)
qed

lemma sym_type_string:
  "s \<noteq> [] \<Longrightarrow>
   sym_type (cfg(''symmetry_patch_type'' \<mapsto> VStr s)) =
     (if caseless_equal s ''symmetryplane'' then VStr ''symmetry'' else VStr s)"
  by (simp add: sym_type_def cfg_get_def py_str_def truthy_def caseless_equal_def
      lower_symmetryplane)

text \<open>
  Claim C6, as it stands, fails at the empty token: it is not equal to
  \<open>"symmetryplane"\<close> in any case, and it is not passed through.
\<close>

theorem normalization_empty_token_counterexample:
  "\<not> caseless_equal [] ''symmetryplane''
   \<and> sym_type (Map.empty(''symmetry_patch_type'' \<mapsto> VStr [])) \<noteq> VStr []"
  by (simp add: sym_type_falsy truthy_def caseless_equal_def lower_def)

text \<open>
  Claim C6, amended. A token equal to \<open>"symmetryplane"\<close> up to case resolves to
  \<open>"symmetry"\<close>; every other non-empty token resolves to itself; an absent token (no key,
  or the value \<open>None\<close>) resolves to \<open>"symmetry"\<close>. So \<open>"symmetryPlane"\<close> and
  \<open>"SymmetryPlane"\<close> give \<open>"symmetry"\<close>, and \<open>"wall"\<close> gives \<open>"wall"\<close>.
\<close>

theorem symmetry_type_normalization:
  "(caseless_equal s ''symmetryplane'' \<longrightarrow>
      sym_type (cfg(''symmetry_patch_type'' \<mapsto> VStr s)) = VStr ''symmetry'')
   \<and> (\<not> caseless_equal s ''symmetryplane'' \<and> s \<noteq> [] \<longrightarrow>
      sym_type (cfg(''symmetry_patch_type'' \<mapsto> VStr s)) = VStr s)
   \<and> (cfg ''symmetry_patch_type'' = None \<longrightarrow> sym_type cfg = VStr ''symmetry'')
   \<and> sym_type (cfg(''symmetry_patch_type'' \<mapsto> VNone)) = VStr ''symmetry''
   \<and> sym_type (cfg(''symmetry_patch_type'' \<mapsto> VStr ''symmetryPlane'')) = VStr ''symmetry''
   \<and> sym_type (cfg(''symmetry_patch_type'' \<mapsto> VStr ''SymmetryPlane'')) = VStr ''symmetry''
   \<and> sym_type (cfg(''symmetry_patch_type'' \<mapsto> VStr ''wall'')) = VStr ''wall''"
proof (intro conjI impI)
  assume eq: "caseless_equal s ''symmetryplane''"
  then have "s \<noteq> []"
    by (auto simp: caseless_equal_def lower_def)
  with eq show "sym_type (cfg(''symmetry_patch_type'' \<mapsto> VStr s)) = VStr ''symmetry''"
    by (simp add: sym_type_string)
next
  assume "\<not> caseless_equal s ''symmetryplane'' \<and> s \<noteq> []"
  then show "sym_type (cfg(''symmetry_patch_type'' \<mapsto> VStr s)) = VStr s"
    by (simp add: sym_type_string)
next
  assume "cfg ''symmetry_patch_type'' = None"
  then show "sym_type cfg = VStr ''symmetry''"
    by (rule sym_type_absent)
next
  show "sym_type (cfg(''symmetry_patch_type'' \<mapsto> VNone)) = VStr ''symmetry''"
    by (simp add: sym_type_falsy truthy_def)
next
  have "caseless_equal ''symmetryPlane'' ''symmetryplane''"
    by code_simp
  then show "sym_type (cfg(''symmetry_patch_type'' \<mapsto> VStr ''symmetryPlane'')) = VStr ''symmetry''"
    by (simp add: sym_type_string)
next
  have "caseless_equal ''SymmetryPlane'' ''symmetryplane''"
    by code_simp
  then show "sym_type (cfg(''symmetry_patch_type'' \<mapsto> VStr ''SymmetryPlane'')) = VStr ''symmetry''"
    by (simp add: sym_type_string)
next
  have "\<not> caseless_equal ''wall'' ''symmetryplane''"
    by (simp add: caseless_equal_def lower_def)
  then show "sym_type (cfg(''symmetry_patch_type'' \<mapsto> VStr ''wall'')) = VStr ''wall''"
    by (simp add: sym_type_string)
qed

theorem symmetry_type_normalization_witness:
  "sym_type (Map.empty(''symmetry_patch_type'' \<mapsto> VStr ''SYMMETRYPLANE'')) = VStr ''symmetry''
   \<and> sym_type (Map.empty(''symmetry_patch_type'' \<mapsto> VStr ''patch'')) = VStr ''patch''
   \<and> sym_type (Map.empty(''output'' \<mapsto> VStr ''system/blockMeshDict'')) = VStr ''symmetry''"
proof -
  have a: "caseless_equal ''SYMMETRYPLANE'' ''symmetryplane''"
    by code_simp
  have b: "\<not> caseless_equal ''patch'' ''symmetryplane'' \<and> ''patch'' \<noteq> []"
    by (simp add: caseless_equal_def lower_def)
  have c: "(Map.empty(''output'' \<mapsto> VStr ''system/blockMeshDict'')) ''symmetry_patch_type'' = None"
    by simp
  from a b c show ?thesis
    using symmetry_type_normalization [of "''SYMMETRYPLANE''" Map.empty]
      symmetry_type_normalization [of "''patch''" Map.empty]
      symmetry_type_normalization [of "[]" "Map.empty(''output'' \<mapsto> VStr ''system/blockMeshDict'')"]
    by blast
qed

text \<open>
  Claim C9. The default is chosen by a truth test that comes before the comparison with
  \<open>"symmetryplane"\<close>: every falsy configured value (\<open>None\<close>, the empty string, \<open>0\<close>,
  \<open>False\<close>) resolves to \<open>"symmetry"\<close>, the empty string among them.
\<close>

theorem falsy_symmetry_type_defaults:
  "(\<not> truthy v \<longrightarrow> sym_type (cfg(''symmetry_patch_type'' \<mapsto> v)) = VStr ''symmetry'')
   \<and> \<not> truthy (VStr [])
   \<and> sym_type (cfg(''symmetry_patch_type'' \<mapsto> VStr [])) = VStr ''symmetry''"
  by (simp add: sym_type_falsy truthy_def)

theorem falsy_symmetry_type_defaults_witness:
  "sym_type (Map.empty(''symmetry_patch_type'' \<mapsto> VInt 0)) = VStr ''symmetry''
   \<and> sym_type (Map.empty(''symmetry_patch_type'' \<mapsto> VBool False)) = VStr ''symmetry''"
proof -
  have "\<not> truthy (VInt 0)" and "\<not> truthy (VBool False)"
    by (simp_all add: truthy_def)
  then show ?thesis
    using falsy_symmetry_type_defaults [of "VInt 0" Map.empty]
      falsy_symmetry_type_defaults [of "VBool False" Map.empty]
    by blast
qed

section \<open>Facts about the text primitives\<close>

lemma rstrip_prefix: "x = rstrip x @ rev (takeWhile is_space (rev x))"
proof -
  have "rev (dropWhile is_space (rev x)) @ rev (takeWhile is_space (rev x))
        = rev (takeWhile is_space (rev x) @ dropWhile is_space (rev x))"
    by (simp only: rev_append)
  also have "\<dots> = rev (rev x)"
    by (simp only: takeWhile_dropWhile_id)
  finally show ?thesis
    by (simp add: rstrip_def)
qed

lemma startswith_iff: "startswith s p \<longleftrightarrow> (\<exists>r. s = p @ r)"
proof
  assume "startswith s p"
  then have "s = p @ drop (length p) s"
    unfolding startswith_def by (metis append_take_drop_id)
  then show "\<exists>r. s = p @ r" ..
next
  assume "\<exists>r. s = p @ r"
  then show "startswith s p"
    by (auto simp: startswith_def)
qed

lemma startswith_rstrip: "startswith (rstrip x) p \<Longrightarrow> startswith x p"
proof -
  assume "startswith (rstrip x) p"
  then obtain r where "rstrip x = p @ r"
    by (auto simp: startswith_iff)
  then have "x = p @ (r @ rev (takeWhile is_space (rev x)))"
    using rstrip_prefix [of x] by simp
  then show ?thesis
    unfolding startswith_iff ..
qed

lemma startswith_strip: "startswith (strip l) p \<Longrightarrow> startswith (dropWhile is_space l) p"
  by (simp add: strip_def lstrip_def startswith_rstrip)

lemma space_not_type: "is_space c \<Longrightarrow> \<not> startswith (c # cs) ''type''"
  by (auto simp: startswith_def is_space_def Let_def)

lemma py_find_indent:
  "startswith r ''type'' \<Longrightarrow> \<forall>c\<in>set ws. is_space c \<Longrightarrow> py_find (ws @ r) ''type'' = int (length ws)"
proof (induction ws)
  case Nil
  then show ?case by (cases r) (auto simp: startswith_def)
next
  case (Cons c ws)
  then show ?case by (simp add: space_not_type Let_def)
qed

lemma slice_to_nat: "k \<le> length s \<Longrightarrow> slice_to s (int k) = take k s"
  by (simp add: slice_to_def Let_def)

lemma indent_of_type_line:
  assumes "startswith (strip l) ''type''"
  shows "slice_to l (py_find l ''type'') = takeWhile is_space l"
proof -
  have r: "startswith (dropWhile is_space l) ''type''"
    using assms by (rule startswith_strip)
  have "py_find (takeWhile is_space l @ dropWhile is_space l) ''type'' = int (length (takeWhile is_space l))"
    using r by (rule py_find_indent) (auto dest: set_takeWhileD)
  then have "py_find l ''type'' = int (length (takeWhile is_space l))"
    by simp
  moreover have "length (takeWhile is_space l) \<le> length l"
    by (rule length_takeWhile_le)
  ultimately show ?thesis
    by (simp add: slice_to_nat takeWhile_eq_take[symmetric])
qed

section \<open>One pass of the loop, case by case\<close>

lemma brace_not_type: "startswith x ''{'' \<Longrightarrow> \<not> startswith x ''type''"
  by (auto simp: startswith_iff)

lemma brace_not_closing: "startswith x ''{'' \<Longrightarrow> \<not> startswith x ''}''"
  by (auto simp: startswith_iff)

lemma type_not_closing: "startswith x ''type'' \<Longrightarrow> \<not> startswith x ''}''"
  by (auto simp: startswith_iff)

lemma scan_line_type:
  "in_patch s \<Longrightarrow> startswith (strip l) ''type'' \<Longrightarrow>
   scan_line n t s l = s\<lparr>changed := True, updated := updated s @ [rewrite_line t l]\<rparr>"
  by (simp add: scan_line_def Let_def type_not_closing)

lemma scan_line_closing:
  "in_patch s \<Longrightarrow> startswith (strip l) ''}'' \<Longrightarrow>
   scan_line n t s l = s\<lparr>in_patch := False, updated := updated s @ [l]\<rparr>"
  using type_not_closing [of "strip l"] by (auto simp add: scan_line_def Let_def)

lemma scan_line_inside:
  "in_patch s \<Longrightarrow> \<not> startswith (strip l) ''type'' \<Longrightarrow> \<not> startswith (strip l) ''}'' \<Longrightarrow>
   scan_line n t s l = s\<lparr>updated := updated s @ [l]\<rparr>"
  by (simp add: scan_line_def Let_def)

lemma scan_line_name:
  "\<not> in_patch s \<Longrightarrow> strip l = n \<Longrightarrow>
   scan_line n t s l = s\<lparr>seen_name := True, updated := updated s @ [l]\<rparr>"
  by (simp add: scan_line_def Let_def)

lemma scan_line_enter:
  "\<not> in_patch s \<Longrightarrow> seen_name s \<Longrightarrow> strip l \<noteq> n \<Longrightarrow> startswith (strip l) ''{'' \<Longrightarrow>
   scan_line n t s l = s\<lparr>in_patch := True, seen_name := False, updated := updated s @ [l]\<rparr>"
  by (simp add: scan_line_def Let_def brace_not_type brace_not_closing)

lemma scan_line_outside:
  "\<not> in_patch s \<Longrightarrow> strip l \<noteq> n \<Longrightarrow> \<not> (seen_name s \<and> startswith (strip l) ''{'') \<Longrightarrow>
   scan_line n t s l = s\<lparr>updated := updated s @ [l]\<rparr>"
  by (auto simp add: scan_line_def Let_def)

lemma updated_scan_line:
  "updated (scan_line n t s l) =
     updated s @ [if in_patch s \<and> startswith (strip l) ''type'' then rewrite_line t l else l]"
  by (auto simp add: scan_line_def Let_def brace_not_type)

lemma changed_scan_line:
  "changed (scan_line n t s l) = (changed s \<or> (in_patch s \<and> startswith (strip l) ''type''))"
  by (auto simp add: scan_line_def Let_def brace_not_type)

lemma in_patch_scan_line:
  "in_patch (scan_line n t s l) =
     ((in_patch s \<and> \<not> startswith (strip l) ''}'')
      \<or> (\<not> in_patch s \<and> seen_name s \<and> strip l \<noteq> n \<and> startswith (strip l) ''{''))"
  by (auto simp add: scan_line_def Let_def brace_not_closing)

lemma seen_name_scan_line:
  "seen_name (scan_line n t s l) =
     ((in_patch s \<and> seen_name s)
      \<or> (\<not> in_patch s \<and> (strip l = n \<or> (seen_name s \<and> \<not> startswith (strip l) ''{''))))"
  by (auto simp add: scan_line_def Let_def)

lemma scan_lines_snoc: "scan_lines n t s (xs @ [x]) = scan_line n t (scan_lines n t s xs) x"
  by (simp add: scan_lines_append)

lemma updated_scan_lines:
  "\<exists>outs. updated (scan_lines n t s ls) = updated s @ outs \<and> length outs = length ls"
proof (induction ls arbitrary: s)
  case Nil
  then show ?case by simp
next
  case (Cons l ls)
  from Cons.IH [of "scan_line n t s l"] obtain outs where
    "updated (scan_lines n t (scan_line n t s l) ls) = updated (scan_line n t s l) @ outs"
    and "length outs = length ls"
    by blast
  then have "updated (scan_lines n t s (l # ls)) =
      updated s @ ((if in_patch s \<and> startswith (strip l) ''type'' then rewrite_line t l else l) # outs)
    \<and> length ((if in_patch s \<and> startswith (strip l) ''type'' then rewrite_line t l else l) # outs)
      = length (l # ls)"
    by (simp add: updated_scan_line)
  then show ?case by blast
qed

lemma length_updated_scan_lines:
  "length (updated (scan_lines n t s ls)) = length (updated s) + length ls"
  using updated_scan_lines [of n t s ls] by auto

lemma scan_lines_searching:
  "\<not> in_patch s \<Longrightarrow> \<not> seen_name s \<Longrightarrow> \<forall>l\<in>set ls. strip l \<noteq> n \<Longrightarrow>
   scan_lines n t s ls = s\<lparr>updated := updated s @ ls\<rparr>"
  by (induction ls arbitrary: s) (simp_all add: scan_line_outside)

lemma scan_lines_armed:
  "\<not> in_patch s \<Longrightarrow> seen_name s \<Longrightarrow> \<forall>l\<in>set ls. \<not> startswith (strip l) ''{'' \<Longrightarrow>
   scan_lines n t s ls = s\<lparr>updated := updated s @ ls\<rparr>"
proof (induction ls arbitrary: s)
  case Nil
  then show ?case by simp
next
  case (Cons l ls)
  have "scan_line n t s l = s\<lparr>updated := updated s @ [l]\<rparr>"
  proof (cases "strip l = n")
    case True
    with Cons.prems have "scan_line n t s l = s\<lparr>seen_name := True, updated := updated s @ [l]\<rparr>"
      by (simp add: scan_line_name)
    moreover have "s\<lparr>seen_name := True\<rparr> = s"
      using Cons.prems by simp
    ultimately show ?thesis by simp
  next
    case False
    with Cons.prems show ?thesis by (simp add: scan_line_outside)
  qed
  with Cons show ?case by simp
qed

lemma scan_lines_inside:
  "in_patch s \<Longrightarrow> \<forall>l\<in>set ls. \<not> startswith (strip l) ''type'' \<and> \<not> startswith (strip l) ''}'' \<Longrightarrow>
   scan_lines n t s ls = s\<lparr>updated := updated s @ ls\<rparr>"
  by (induction ls arbitrary: s) (simp_all add: scan_line_inside)

section \<open>The whole scan and the file\<close>

lemma concat_split_lines: "concat (split_lines s) = s"
  by (induction s) (auto split: list.splits)

lemma universal_newlines_id: "CR \<notin> set s \<Longrightarrow> universal_newlines s = s"
  by (induction s rule: universal_newlines.induct) auto

lemma writelines_readlines: "writelines (readlines c) = universal_newlines c"
  by (simp add: writelines_def readlines_def concat_split_lines)

lemma changed_mono: "changed s \<Longrightarrow> changed (scan_lines n t s ls)"
  by (induction ls arbitrary: s) (simp_all add: changed_scan_line)

lemma unchanged_updated:
  "\<not> changed (scan_lines n t s ls) \<Longrightarrow> updated (scan_lines n t s ls) = updated s @ ls"
proof (induction ls arbitrary: s)
  case Nil
  then show ?case by simp
next
  case (Cons l ls)
  from Cons.prems have nc: "\<not> changed (scan_line n t s l)"
    using changed_mono [of "scan_line n t s l" n t ls] by auto
  then have "updated (scan_line n t s l) = updated s @ [l]"
    by (auto simp: changed_scan_line updated_scan_line)
  moreover have "updated (scan_lines n t (scan_line n t s l) ls) = updated (scan_line n t s l) @ ls"
    using Cons.prems by (intro Cons.IH) simp
  ultimately show ?case by simp
qed

lemma changed_scan_lines_iff:
  "changed (scan_lines n t s ls) =
     (changed s \<or> (\<exists>pre l post. ls = pre @ l # post \<and> in_patch (scan_lines n t s pre)
                      \<and> startswith (strip l) ''type''))"
proof (induction ls arbitrary: s)
  case Nil
  then show ?case by simp
next
  case (Cons x xs)
  let ?s = "scan_line n t s x"
  have "(\<exists>pre l post. x # xs = pre @ l # post \<and> in_patch (scan_lines n t s pre)
            \<and> startswith (strip l) ''type'')
        = ((in_patch s \<and> startswith (strip x) ''type'')
           \<or> (\<exists>pre l post. xs = pre @ l # post \<and> in_patch (scan_lines n t ?s pre)
                 \<and> startswith (strip l) ''type''))" (is "?L = (?A \<or> ?B)")
  proof
    assume ?L
    then obtain pre l post where d: "x # xs = pre @ l # post"
      and i: "in_patch (scan_lines n t s pre)" and ty: "startswith (strip l) ''type''"
      by blast
    show "?A \<or> ?B"
    proof (cases pre)
      case Nil
      with d i ty show ?thesis by simp
    next
      case (Cons y pre')
      with d i ty have "xs = pre' @ l # post \<and> in_patch (scan_lines n t ?s pre')
          \<and> startswith (strip l) ''type''"
        by simp
      then show ?thesis by blast
    qed
  next
    assume "?A \<or> ?B"
    then show ?L
    proof
      assume ?A
      then have "x # xs = [] @ x # xs \<and> in_patch (scan_lines n t s [])
          \<and> startswith (strip x) ''type''"
        by simp
      then show ?L by blast
    next
      assume ?B
      then obtain pre l post where "xs = pre @ l # post"
        and "in_patch (scan_lines n t ?s pre)" and "startswith (strip l) ''type''"
        by blast
      then have "x # xs = (x # pre) @ l # post \<and> in_patch (scan_lines n t s (x # pre))
          \<and> startswith (strip l) ''type''"
        by simp
      then show ?L by blast
    qed
  qed
  then show ?case
    by (simp add: Cons.IH changed_scan_line)
qed

lemma enforce_patch_type_file:
  "files fs p = Some c \<Longrightarrow>
   enforce_patch_type fs p n t =
     (fs\<lparr>files := (files fs)(p \<mapsto> writelines (updated (scan_lines n t init_state (readlines c)))),
         written := written fs @ [(p, writelines (updated (scan_lines n t init_state (readlines c))))]\<rparr>,
      if changed (scan_lines n t init_state (readlines c)) then None
      else Some (RuntimeError (failure_message p n t)))"
  by (simp add: enforce_patch_type_def Let_def)

lemma unchanged_text:
  "\<not> changed (scan_lines n t init_state (readlines c)) \<Longrightarrow>
   writelines (updated (scan_lines n t init_state (readlines c))) = universal_newlines c"
  using unchanged_updated [of n t init_state "readlines c"]
  by (simp add: init_state_def writelines_readlines)

section \<open>Where the scan stands after a prefix of the file\<close>

lemma scan_position:
  "(in_patch (scan_lines n t init_state pre) \<longrightarrow>
      \<not> seen_name (scan_lines n t init_state pre)
      \<and> (\<exists>a nm mid br body. pre = a @ nm # mid @ br # body \<and> strip nm = n
            \<and> (\<forall>l\<in>set mid. \<not> startswith (strip l) ''{'' \<or> strip l = n)
            \<and> startswith (strip br) ''{'' \<and> strip br \<noteq> n
            \<and> (\<forall>l\<in>set body. \<not> startswith (strip l) ''}'')))
   \<and> (seen_name (scan_lines n t init_state pre) \<longrightarrow>
      (\<exists>a nm mid. pre = a @ nm # mid \<and> strip nm = n
            \<and> (\<forall>l\<in>set mid. \<not> startswith (strip l) ''{'' \<or> strip l = n)))"
  (is "?I pre \<and> ?A pre")
proof (induction pre rule: rev_induct)
  case Nil
  then show ?case by (simp add: init_state_def)
next
  case (snoc x pre)
  let ?s = "scan_lines n t init_state pre"
  let ?s' = "scan_lines n t init_state (pre @ [x])"
  have step: "?s' = scan_line n t ?s x"
    by (rule scan_lines_snoc)
  from snoc have I: "?I pre" and A: "?A pre"
    by blast+
  have "?I (pre @ [x])"
  proof
    assume "in_patch ?s'"
    then consider
        (stay) "in_patch ?s" "\<not> startswith (strip x) ''}''"
      | (enter) "\<not> in_patch ?s" "seen_name ?s" "strip x \<noteq> n" "startswith (strip x) ''{''"
      unfolding step in_patch_scan_line by blast
    then show "\<not> seen_name ?s'
      \<and> (\<exists>a nm mid br body. pre @ [x] = a @ nm # mid @ br # body \<and> strip nm = n
            \<and> (\<forall>l\<in>set mid. \<not> startswith (strip l) ''{'' \<or> strip l = n)
            \<and> startswith (strip br) ''{'' \<and> strip br \<noteq> n
            \<and> (\<forall>l\<in>set body. \<not> startswith (strip l) ''}''))"
    proof cases
      case stay
      with I obtain a nm mid br body where d: "pre = a @ nm # mid @ br # body" "strip nm = n"
        "\<forall>l\<in>set mid. \<not> startswith (strip l) ''{'' \<or> strip l = n"
        "startswith (strip br) ''{''" "strip br \<noteq> n"
        "\<forall>l\<in>set body. \<not> startswith (strip l) ''}''"
        and ns: "\<not> seen_name ?s"
        by blast
      have "pre @ [x] = a @ nm # mid @ br # (body @ [x])"
        using d(1) by simp
      moreover have "\<forall>l\<in>set (body @ [x]). \<not> startswith (strip l) ''}''"
        using d(6) stay(2) by simp
      moreover have "\<not> seen_name ?s'"
        unfolding step seen_name_scan_line using stay(1) ns by simp
      ultimately show ?thesis
        using d(2-5) by blast
    next
      case enter
      with A obtain a nm mid where d: "pre = a @ nm # mid" "strip nm = n"
        "\<forall>l\<in>set mid. \<not> startswith (strip l) ''{'' \<or> strip l = n"
        by blast
      have "pre @ [x] = a @ nm # mid @ x # []"
        using d(1) by simp
      moreover have "\<forall>l\<in>set []. \<not> startswith (strip l) ''}''"
        by simp
      moreover have "\<not> seen_name ?s'"
        unfolding step seen_name_scan_line using enter by simp
      ultimately show ?thesis
        using d(2,3) enter(3,4) by blast
    qed
  qed
  moreover have "?A (pre @ [x])"
  proof
    assume "seen_name ?s'"
    then have out: "\<not> in_patch ?s" and c: "strip x = n \<or> (seen_name ?s \<and> \<not> startswith (strip x) ''{'')"
      unfolding step seen_name_scan_line using I by blast+
    from c show "\<exists>a nm mid. pre @ [x] = a @ nm # mid \<and> strip nm = n
            \<and> (\<forall>l\<in>set mid. \<not> startswith (strip l) ''{'' \<or> strip l = n)"
    proof
      assume "strip x = n"
      then have "pre @ [x] = pre @ x # [] \<and> strip x = n
          \<and> (\<forall>l\<in>set []. \<not> startswith (strip l) ''{'' \<or> strip l = n)"
        by simp
      then show ?thesis by blast
    next
      assume k: "seen_name ?s \<and> \<not> startswith (strip x) ''{''"
      with A obtain a nm mid where d: "pre = a @ nm # mid" "strip nm = n"
        "\<forall>l\<in>set mid. \<not> startswith (strip l) ''{'' \<or> strip l = n"
        by blast
      have "pre @ [x] = a @ nm # (mid @ [x])"
        using d(1) by simp
      moreover have "\<forall>l\<in>set (mid @ [x]). \<not> startswith (strip l) ''{'' \<or> strip l = n"
        using d(3) k by simp
      ultimately show ?thesis
        using d(2) by blast
    qed
  qed
  ultimately show ?case ..
qed

lemma in_patch_not_seen_name:
  "in_patch (scan_lines n t init_state pre) \<Longrightarrow> \<not> seen_name (scan_lines n t init_state pre)"
  using scan_position [of n t pre] by blast

lemma in_patch_entered:
  "in_patch (scan_lines n t init_state pre) \<Longrightarrow>
   \<exists>a nm mid br body. pre = a @ nm # mid @ br # body \<and> strip nm = n
      \<and> (\<forall>l\<in>set mid. \<not> startswith (strip l) ''{'' \<or> strip l = n)
      \<and> startswith (strip br) ''{'' \<and> strip br \<noteq> n
      \<and> (\<forall>l\<in>set body. \<not> startswith (strip l) ''}'')"
  using scan_position [of n t pre] by blast

lemma never_entered:
  assumes nb: "\<forall>pre l post. ls = pre @ l # post \<and> strip l = n \<longrightarrow>
                (\<forall>k\<in>set post. \<not> startswith (strip k) ''{'')"
  shows "\<not> changed (scan_lines n t init_state ls)"
proof
  assume "changed (scan_lines n t init_state ls)"
  then obtain pre l post where d: "ls = pre @ l # post"
    and i: "in_patch (scan_lines n t init_state pre)"
    by (auto simp: changed_scan_lines_iff init_state_def)
  from in_patch_entered [OF i] obtain a nm mid br body where
    e: "pre = a @ nm # mid @ br # body" "strip nm = n" "startswith (strip br) ''{''"
    by blast
  have "ls = a @ nm # (mid @ br # body @ l # post)"
    using d e(1) by simp
  with nb e(2) have "\<forall>k\<in>set (mid @ br # body @ l # post). \<not> startswith (strip k) ''{''"
    by blast
  with e(3) show False by simp
qed

text \<open>
  Claim C8, as it stands, fails on a file with carriage returns: the run below raises
  the patch-correction error, and the text it has written back is not the original one.
\<close>

theorem write_back_carriage_return_counterexample:
  "snd (enforce_patch_type
       \<lparr>files = Map.empty(''system/blockMeshDict'' \<mapsto> ''inlet'' @ [CR, LF] @ ''{'' @ [CR, LF] @ ''}'' @ [CR, LF]), written = []\<rparr>
       ''system/blockMeshDict'' ''symmetryPlane'' ''symmetry'')
     = Some (RuntimeError (failure_message ''system/blockMeshDict'' ''symmetryPlane'' ''symmetry''))
   \<and> files (fst (enforce_patch_type
       \<lparr>files = Map.empty(''system/blockMeshDict'' \<mapsto> ''inlet'' @ [CR, LF] @ ''{'' @ [CR, LF] @ ''}'' @ [CR, LF]), written = []\<rparr>
       ''system/blockMeshDict'' ''symmetryPlane'' ''symmetry'')) ''system/blockMeshDict''
     = Some (''inlet'' @ [LF] @ ''{'' @ [LF] @ ''}'' @ [LF])
   \<and> ''inlet'' @ [LF] @ ''{'' @ [LF] @ ''}'' @ [LF] \<noteq> ''inlet'' @ [CR, LF] @ ''{'' @ [CR, LF] @ ''}'' @ [CR, LF]"
  by code_simp

text \<open>
  Claim C8, amended. On a file that can be read, \<open>enforce_patch_type\<close> writes the
  lines of \<open>updated\<close> back on every path: one write is recorded, and the file holds
  that text. The check of \<open>changed\<close> comes after it, so a run that raises the
  patch-correction error has written too: the text written is the original with its
  line ends normalised to \<open>\n\<close>, which is the original itself when that has no
  carriage return.
\<close>

theorem write_back_before_check:
  assumes "files fs p = Some c"
  shows "written (fst (enforce_patch_type fs p n t)) =
           written fs @ [(p, writelines (updated (scan_lines n t init_state (readlines c))))]
    \<and> files (fst (enforce_patch_type fs p n t)) p =
           Some (writelines (updated (scan_lines n t init_state (readlines c))))
    \<and> (snd (enforce_patch_type fs p n t) = Some (RuntimeError (failure_message p n t)) \<longrightarrow>
         written (fst (enforce_patch_type fs p n t)) = written fs @ [(p, universal_newlines c)]
         \<and> files (fst (enforce_patch_type fs p n t)) p = Some (universal_newlines c)
         \<and> (CR \<notin> set c \<longrightarrow> files (fst (enforce_patch_type fs p n t)) = files fs))"
proof -
  have "CR \<notin> set c \<Longrightarrow> (files fs)(p \<mapsto> c) = files fs"
    using assms by (simp add: fun_upd_idem_iff)
  then show ?thesis
    using assms unchanged_text [of n t c]
    by (simp add: enforce_patch_type_file universal_newlines_id split: if_splits)
qed

theorem write_back_before_check_witness:
  "written (fst (enforce_patch_type
      \<lparr>files = Map.empty(''system/blockMeshDict'' \<mapsto> ''inlet'' @ [LF] @ ''{'' @ [LF] @ ''type patch;'' @ [LF] @ ''}'' @ [LF]), written = []\<rparr>
      ''system/blockMeshDict'' ''symmetryPlane'' ''symmetry''))
    = [(''system/blockMeshDict'', ''inlet'' @ [LF] @ ''{'' @ [LF] @ ''type patch;'' @ [LF] @ ''}'' @ [LF])]"
proof -
  let ?c = "''inlet'' @ [LF] @ ''{'' @ [LF] @ ''type patch;'' @ [LF] @ ''}'' @ [LF]"
  let ?fs = "\<lparr>files = Map.empty(''system/blockMeshDict'' \<mapsto> ?c), written = []\<rparr>"
  have f: "files ?fs ''system/blockMeshDict'' = Some ?c"
    by simp
  have e: "snd (enforce_patch_type ?fs ''system/blockMeshDict'' ''symmetryPlane'' ''symmetry'')
      = Some (RuntimeError (failure_message ''system/blockMeshDict'' ''symmetryPlane'' ''symmetry''))"
    by code_simp
  have u: "universal_newlines ?c = ?c"
    by code_simp
  from write_back_before_check [OF f, of "''symmetryPlane''" "''symmetry''"] e
  have w: "written (fst (enforce_patch_type ?fs ''system/blockMeshDict'' ''symmetryPlane'' ''symmetry''))
      = written ?fs @ [(''system/blockMeshDict'', universal_newlines ?c)]"
    by blast
  show ?thesis
    unfolding w u by simp
qed

lemma rewrite_line_type:
  "startswith (strip l) ''type'' \<Longrightarrow>
   rewrite_line t l = takeWhile is_space l @ ''type '' @ t @ '';'' @ [LF]"
  by (simp add: rewrite_line_def indent_of_type_line)

lemma updated_scan_lines_mid:
  "updated (scan_lines n t s (pre @ l # post)) ! (length (updated s) + length pre) =
     (if in_patch (scan_lines n t s pre) \<and> startswith (strip l) ''type''
      then rewrite_line t l else l)"
proof -
  let ?s = "scan_lines n t s pre"
  obtain outs where
    "updated (scan_lines n t (scan_line n t ?s l) post) = updated (scan_line n t ?s l) @ outs"
    using updated_scan_lines by blast
  then have "updated (scan_lines n t s (pre @ l # post)) =
      updated ?s @ (if in_patch ?s \<and> startswith (strip l) ''type'' then rewrite_line t l else l) # outs"
    by (simp add: scan_lines_append updated_scan_line)
  then have "updated (scan_lines n t s (pre @ l # post)) ! length (updated ?s) =
      (if in_patch ?s \<and> startswith (strip l) ''type'' then rewrite_line t l else l)"
    by (simp only: nth_append_length)
  then show ?thesis
    by (simp only: length_updated_scan_lines)
qed

lemma updated_nth:
  assumes "i < length ls"
  shows "updated (scan_lines n t s ls) ! (length (updated s) + i) =
     (if in_patch (scan_lines n t s (take i ls)) \<and> startswith (strip (ls ! i)) ''type''
      then rewrite_line t (ls ! i) else ls ! i)"
proof -
  have "updated (scan_lines n t s (take i ls @ ls ! i # drop (Suc i) ls))
          ! (length (updated s) + length (take i ls)) =
     (if in_patch (scan_lines n t s (take i ls)) \<and> startswith (strip (ls ! i)) ''type''
      then rewrite_line t (ls ! i) else ls ! i)"
    by (rule updated_scan_lines_mid)
  moreover have "take i ls @ ls ! i # drop (Suc i) ls = ls"
    using assms by (simp add: id_take_nth_drop [symmetric])
  moreover have "length (take i ls) = i"
    using assms by simp
  ultimately show ?thesis
    by simp
qed

lemma updated_nth_init:
  "i < length ls \<Longrightarrow>
   updated (scan_lines n t init_state ls) ! i =
     (if in_patch (scan_lines n t init_state (take i ls)) \<and> startswith (strip (ls ! i)) ''type''
      then rewrite_line t (ls ! i) else ls ! i)"
  using updated_nth [of i ls n t init_state] by (simp add: init_state_def)

lemma length_updated_init: "length (updated (scan_lines n t init_state ls)) = length ls"
  by (simp add: length_updated_scan_lines init_state_def)

lemma changed_init_iff:
  "changed (scan_lines n t init_state ls) =
     (\<exists>pre l post. ls = pre @ l # post \<and> in_patch (scan_lines n t init_state pre)
         \<and> startswith (strip l) ''type'')"
  by (simp add: changed_scan_lines_iff init_state_def)

lemma snd_enforce_patch_type:
  "files fs p = Some c \<Longrightarrow>
   snd (enforce_patch_type fs p n t) =
     (if changed (scan_lines n t init_state (readlines c)) then None
      else Some (RuntimeError (failure_message p n t)))"
  by (simp add: enforce_patch_type_file)

lemma files_enforce_patch_type:
  "files fs p = Some c \<Longrightarrow>
   files (fst (enforce_patch_type fs p n t)) =
     (files fs)(p \<mapsto> writelines (updated (scan_lines n t init_state (readlines c))))"
  by (simp add: enforce_patch_type_file)
text \<open>
  Claim C2, as it stands, fails on a file with carriage returns: the name occurs, no
  brace follows, the run raises the patch-correction error, and the file no longer
  holds its original text.
\<close>

theorem failure_changes_file_counterexample:
  "snd (enforce_patch_type
       \<lparr>files = Map.empty(''system/blockMeshDict'' \<mapsto> ''symmetryPlane'' @ [CR, LF]), written = []\<rparr>
       ''system/blockMeshDict'' ''symmetryPlane'' ''symmetry'')
     = Some (RuntimeError (failure_message ''system/blockMeshDict'' ''symmetryPlane'' ''symmetry''))
   \<and> files (fst (enforce_patch_type
       \<lparr>files = Map.empty(''system/blockMeshDict'' \<mapsto> ''symmetryPlane'' @ [CR, LF]), written = []\<rparr>
       ''system/blockMeshDict'' ''symmetryPlane'' ''symmetry'')) ''system/blockMeshDict''
     = Some (''symmetryPlane'' @ [LF])
   \<and> ''symmetryPlane'' @ [LF] \<noteq> ''symmetryPlane'' @ [CR, LF]"
  by code_simp

text \<open>
  Claim C2, amended. On a file that can be read, \<open>enforce_patch_type\<close> raises the
  error that names the patch, the type and the path exactly when no line was rewritten,
  that is when no line that starts with \<open>type\<close> was reached inside an entered block; it
  returns normally exactly when some line was. It raises in particular when no line
  equal to the name is followed by a line that starts with an opening brace (the name
  does not occur, or no brace ever follows it). After a failure the file holds the
  original text with its line ends normalised to \<open>\n\<close>, so the files are unchanged when
  that text has no carriage return.
\<close>

theorem no_rewrite_fails:
  assumes "files fs p = Some c"
  shows "(snd (enforce_patch_type fs p n t) = Some (RuntimeError (failure_message p n t)))
       = (\<not> (\<exists>pre l post. readlines c = pre @ l # post
               \<and> in_patch (scan_lines n t init_state pre) \<and> startswith (strip l) ''type''))
    \<and> (snd (enforce_patch_type fs p n t) = None)
       = (\<exists>pre l post. readlines c = pre @ l # post
               \<and> in_patch (scan_lines n t init_state pre) \<and> startswith (strip l) ''type'')
    \<and> (\<exists>a b. failure_message p n t = a @ n @ b @ t @ [QUOTE] @ '' in '' @ p @ ''.'')
    \<and> ((\<forall>pre l post. readlines c = pre @ l # post \<and> strip l = n \<longrightarrow>
           (\<forall>k\<in>set post. \<not> startswith (strip k) ''{''))
        \<longrightarrow> snd (enforce_patch_type fs p n t) = Some (RuntimeError (failure_message p n t)))
    \<and> (snd (enforce_patch_type fs p n t) = Some (RuntimeError (failure_message p n t)) \<longrightarrow>
         files (fst (enforce_patch_type fs p n t)) p = Some (universal_newlines c)
         \<and> (CR \<notin> set c \<longrightarrow> files (fst (enforce_patch_type fs p n t)) = files fs))"
proof -
  let ?S = "scan_lines n t init_state (readlines c)"
  let ?R = "\<exists>pre l post. readlines c = pre @ l # post
               \<and> in_patch (scan_lines n t init_state pre) \<and> startswith (strip l) ''type''"
  let ?e = "Some (RuntimeError (failure_message p n t))"
  have s: "snd (enforce_patch_type fs p n t) = (if changed ?S then None else ?e)"
    using assms by (rule snd_enforce_patch_type)
  have f: "files (fst (enforce_patch_type fs p n t)) = (files fs)(p \<mapsto> writelines (updated ?S))"
    using assms by (rule files_enforce_patch_type)
  have ch: "changed ?S = ?R"
    by (rule changed_init_iff)
  have c1: "(snd (enforce_patch_type fs p n t) = ?e) = (\<not> ?R)"
    unfolding ch [symmetric] s by simp
  have c2: "(snd (enforce_patch_type fs p n t) = None) = ?R"
    unfolding ch [symmetric] s by simp
  have "failure_message p n t =
      (''Failed to set patch '' @ [QUOTE]) @ n @ ([QUOTE] @ '' type to '' @ [QUOTE]) @ t
        @ [QUOTE] @ '' in '' @ p @ ''.''"
    by (simp add: failure_message_def)
  then have c3: "\<exists>a b. failure_message p n t = a @ n @ b @ t @ [QUOTE] @ '' in '' @ p @ ''.''"
    by blast
  have c4: "snd (enforce_patch_type fs p n t) = ?e"
    if "\<forall>pre l post. readlines c = pre @ l # post \<and> strip l = n \<longrightarrow>
           (\<forall>k\<in>set post. \<not> startswith (strip k) ''{'')"
  proof -
    from that have "\<not> changed ?S"
      by (rule never_entered)
    then show ?thesis
      unfolding s by simp
  qed
  have c5: "files (fst (enforce_patch_type fs p n t)) p = Some (universal_newlines c)
         \<and> (CR \<notin> set c \<longrightarrow> files (fst (enforce_patch_type fs p n t)) = files fs)"
    if "snd (enforce_patch_type fs p n t) = ?e"
  proof -
    from that have nc: "\<not> changed ?S"
      unfolding s by (simp split: if_splits)
    then have w: "writelines (updated ?S) = universal_newlines c"
      by (rule unchanged_text)
    have "(files fs)(p \<mapsto> universal_newlines c) = files fs" if "CR \<notin> set c"
      using assms that by (simp add: universal_newlines_id fun_upd_idem_iff)
    then show ?thesis
      unfolding f w by simp
  qed
  from c1 c2 c3 c4 c5 show ?thesis
    by blast
qed

theorem no_rewrite_fails_witness:
  "snd (enforce_patch_type
      \<lparr>files = Map.empty(''system/blockMeshDict'' \<mapsto> ''symmetryPlane'' @ [LF] @ ''type patch;'' @ [LF]), written = []\<rparr>
      ''system/blockMeshDict'' ''symmetryPlane'' ''symmetry'')
     = Some (RuntimeError (failure_message ''system/blockMeshDict'' ''symmetryPlane'' ''symmetry''))
   \<and> files (fst (enforce_patch_type
      \<lparr>files = Map.empty(''system/blockMeshDict'' \<mapsto> ''symmetryPlane'' @ [LF] @ ''type patch;'' @ [LF]), written = []\<rparr>
      ''system/blockMeshDict'' ''symmetryPlane'' ''symmetry''))
     = Map.empty(''system/blockMeshDict'' \<mapsto> ''symmetryPlane'' @ [LF] @ ''type patch;'' @ [LF])"
proof -
  let ?c = "''symmetryPlane'' @ [LF] @ ''type patch;'' @ [LF]"
  let ?fs = "\<lparr>files = Map.empty(''system/blockMeshDict'' \<mapsto> ?c), written = []\<rparr>"
  have f: "files ?fs ''system/blockMeshDict'' = Some ?c"
    by simp
  have nb: "\<forall>k\<in>set (readlines ?c). \<not> startswith (strip k) ''{''"
    by code_simp
  have hyp: "\<forall>pre l post. readlines ?c = pre @ l # post \<and> strip l = ''symmetryPlane'' \<longrightarrow>
      (\<forall>k\<in>set post. \<not> startswith (strip k) ''{'')"
  proof (intro allI impI)
    fix pre l post
    assume "readlines ?c = pre @ l # post \<and> strip l = ''symmetryPlane''"
    then have "set post \<subseteq> set (readlines ?c)"
      by auto
    with nb show "\<forall>k\<in>set post. \<not> startswith (strip k) ''{''"
      by blast
  qed
  have nocr: "CR \<notin> set ?c"
    by simp
  have fl: "files ?fs = Map.empty(''system/blockMeshDict'' \<mapsto> ?c)"
    by simp
  from no_rewrite_fails [OF f, of "''symmetryPlane''" "''symmetry''"] hyp nocr
  have "snd (enforce_patch_type ?fs ''system/blockMeshDict'' ''symmetryPlane'' ''symmetry'')
     = Some (RuntimeError (failure_message ''system/blockMeshDict'' ''symmetryPlane'' ''symmetry''))
   \<and> files (fst (enforce_patch_type ?fs ''system/blockMeshDict'' ''symmetryPlane'' ''symmetry''))
     = files ?fs"
    by blast
  then show ?thesis
    unfolding fl .
qed

section \<open>The scan as a state machine\<close>

text \<open>
  Claim C5. After any prefix \<open>pre\<close> of the file the scan is SEARCHING (neither flag set),
  ARMED (\<open>seen_name\<close>) or inside a block (\<open>in_patch\<close>). (1) A line that starts with a
  closing brace, read inside a block, leaves the scan SEARCHING. (2) From SEARCHING, lines
  none of which is the name are all copied as they are and leave every flag as it was: no
  rewrite happens until the name occurs again. (3) The scan is inside a block only if the
  prefix holds a line equal to the name, then lines that do not start with an opening
  brace (or are the name again), then a line that starts with an opening brace, and no
  line that starts with a closing brace since. (4) A line whose output differs from it was
  read inside a block and starts with \<open>type\<close>: only entered blocks are edited. (5) Every
  occurrence of the name read outside a block arms the scan (an occurrence inside a block
  is an ordinary line of that block). (6) From ARMED, lines that do not start with an
  opening brace are copied and keep the scan ARMED, and the next line that starts with one
  enters the block.
\<close>

theorem corrector_state_machine:
  "(in_patch (scan_lines n t init_state pre) \<and> startswith (strip l) ''}'' \<longrightarrow>
      \<not> in_patch (scan_lines n t init_state (pre @ [l]))
      \<and> \<not> seen_name (scan_lines n t init_state (pre @ [l])))
   \<and> (\<not> in_patch (scan_lines n t init_state pre) \<and> \<not> seen_name (scan_lines n t init_state pre)
        \<and> (\<forall>k\<in>set mid. strip k \<noteq> n) \<longrightarrow>
      scan_lines n t init_state (pre @ mid) =
        (scan_lines n t init_state pre)\<lparr>updated := updated (scan_lines n t init_state pre) @ mid\<rparr>)
   \<and> (in_patch (scan_lines n t init_state pre) \<longrightarrow>
      (\<exists>a nm between br body. pre = a @ nm # between @ br # body \<and> strip nm = n
          \<and> (\<forall>k\<in>set between. \<not> startswith (strip k) ''{'' \<or> strip k = n)
          \<and> startswith (strip br) ''{''
          \<and> (\<forall>k\<in>set body. \<not> startswith (strip k) ''}'')))
   \<and> (updated (scan_lines n t init_state (pre @ l # post)) ! length pre \<noteq> l \<longrightarrow>
      in_patch (scan_lines n t init_state pre) \<and> startswith (strip l) ''type'')
   \<and> (\<not> in_patch (scan_lines n t init_state pre) \<and> strip l = n \<longrightarrow>
      seen_name (scan_lines n t init_state (pre @ [l]))
      \<and> \<not> in_patch (scan_lines n t init_state (pre @ [l])))
   \<and> (\<not> in_patch (scan_lines n t init_state pre) \<and> seen_name (scan_lines n t init_state pre)
        \<and> (\<forall>k\<in>set mid. \<not> startswith (strip k) ''{'')
        \<and> startswith (strip br) ''{'' \<and> strip br \<noteq> n \<longrightarrow>
      in_patch (scan_lines n t init_state (pre @ mid @ [br]))
      \<and> updated (scan_lines n t init_state (pre @ mid @ [br]))
          = updated (scan_lines n t init_state pre) @ mid @ [br])"
proof -
  let ?S = "scan_lines n t init_state pre"
  have closing: "\<not> in_patch (scan_lines n t init_state (pre @ [l]))
      \<and> \<not> seen_name (scan_lines n t init_state (pre @ [l]))"
    if "in_patch ?S \<and> startswith (strip l) ''}''"
    using that in_patch_not_seen_name [of n t pre]
    by (simp add: scan_lines_snoc scan_line_closing)
  have searching: "scan_lines n t init_state (pre @ mid) = ?S\<lparr>updated := updated ?S @ mid\<rparr>"
    if "\<not> in_patch ?S \<and> \<not> seen_name ?S \<and> (\<forall>k\<in>set mid. strip k \<noteq> n)"
    using that by (simp add: scan_lines_append scan_lines_searching)
  have entered: "\<exists>a nm between br body. pre = a @ nm # between @ br # body \<and> strip nm = n
          \<and> (\<forall>k\<in>set between. \<not> startswith (strip k) ''{'' \<or> strip k = n)
          \<and> startswith (strip br) ''{''
          \<and> (\<forall>k\<in>set body. \<not> startswith (strip k) ''}'')"
    if "in_patch ?S"
    using in_patch_entered [OF that] by blast
  have edited: "in_patch ?S \<and> startswith (strip l) ''type''"
    if "updated (scan_lines n t init_state (pre @ l # post)) ! length pre \<noteq> l"
  proof (rule ccontr)
    assume "\<not> (in_patch ?S \<and> startswith (strip l) ''type'')"
    then have "updated (scan_lines n t init_state (pre @ l # post))
        ! (length (updated init_state) + length pre) = l"
      by (simp only: updated_scan_lines_mid if_False)
    with that show False
      by (simp add: init_state_def)
  qed
  have arm: "seen_name (scan_lines n t init_state (pre @ [l]))
      \<and> \<not> in_patch (scan_lines n t init_state (pre @ [l]))"
    if "\<not> in_patch ?S \<and> strip l = n"
    using that by (simp add: scan_lines_snoc scan_line_name)
  have enter: "in_patch (scan_lines n t init_state (pre @ mid @ [br]))
      \<and> updated (scan_lines n t init_state (pre @ mid @ [br])) = updated ?S @ mid @ [br]"
    if h: "\<not> in_patch ?S \<and> seen_name ?S \<and> (\<forall>k\<in>set mid. \<not> startswith (strip k) ''{'')
        \<and> startswith (strip br) ''{'' \<and> strip br \<noteq> n"
  proof -
    from h have "scan_lines n t ?S mid = ?S\<lparr>updated := updated ?S @ mid\<rparr>"
      by (simp add: scan_lines_armed)
    then have "scan_lines n t init_state (pre @ mid @ [br]) =
        scan_line n t (?S\<lparr>updated := updated ?S @ mid\<rparr>) br"
      by (simp add: scan_lines_append)
    with h show ?thesis
      by (simp add: scan_line_enter)
  qed
  from closing searching entered edited arm enter show ?thesis
    by blast
qed

theorem corrector_state_machine_witness:
  "\<not> in_patch (scan_lines ''symmetryPlane'' ''symmetry'' init_state
        [''symmetryPlane'' @ [LF], ''{'' @ [LF], ''}'' @ [LF]])
   \<and> \<not> seen_name (scan_lines ''symmetryPlane'' ''symmetry'' init_state
        [''symmetryPlane'' @ [LF], ''{'' @ [LF], ''}'' @ [LF]])
   \<and> updated (scan_lines ''symmetryPlane'' ''symmetry'' init_state
        [''inlet'' @ [LF], ''{'' @ [LF], ''type patch;'' @ [LF], ''}'' @ [LF]])
       = [''inlet'' @ [LF], ''{'' @ [LF], ''type patch;'' @ [LF], ''}'' @ [LF]]
   \<and> startswith (strip (''type patch;'' @ [LF])) ''type''
   \<and> seen_name (scan_lines ''symmetryPlane'' ''symmetry'' init_state [''symmetryPlane'' @ [LF]])
   \<and> in_patch (scan_lines ''symmetryPlane'' ''symmetry'' init_state
        [''symmetryPlane'' @ [LF], ''// cut plane'' @ [LF], ''{'' @ [LF]])"
proof -
  let ?n = "''symmetryPlane''" and ?t = "''symmetry''"
  let ?nm = "''symmetryPlane'' @ [LF]" and ?br = "''{'' @ [LF]" and ?cl = "''}'' @ [LF]"
  let ?ty = "''type patch;'' @ [LF]" and ?in = "''inlet'' @ [LF]" and ?co = "''// cut plane'' @ [LF]"
  have inside: "in_patch (scan_lines ?n ?t init_state [?nm, ?br])"
    by code_simp
  have close: "startswith (strip ?cl) ''}''"
    by code_simp
  have start: "\<not> in_patch (scan_lines ?n ?t init_state [])"
    "\<not> seen_name (scan_lines ?n ?t init_state [])"
    by (simp_all add: init_state_def)
  have other: "\<forall>k\<in>set [?in, ?br, ?ty, ?cl]. strip k \<noteq> ?n"
    by code_simp
  have edit: "updated (scan_lines ?n ?t init_state ([?nm, ?br] @ ?ty # [?cl])) ! length [?nm, ?br] \<noteq> ?ty"
    by code_simp
  have name: "strip ?nm = ?n"
    by code_simp
  have armed: "\<not> in_patch (scan_lines ?n ?t init_state [?nm])"
    "seen_name (scan_lines ?n ?t init_state [?nm])"
    by code_simp+
  have pass: "\<forall>k\<in>set [?co]. \<not> startswith (strip k) ''{''"
    by code_simp
  have brace: "startswith (strip ?br) ''{''" "strip ?br \<noteq> ?n"
    by code_simp+
  have c1: "\<not> in_patch (scan_lines ?n ?t init_state ([?nm, ?br] @ [?cl]))
      \<and> \<not> seen_name (scan_lines ?n ?t init_state ([?nm, ?br] @ [?cl]))"
    using corrector_state_machine [of ?n ?t "[?nm, ?br]" ?cl] inside close by blast
  have c2: "scan_lines ?n ?t init_state ([] @ [?in, ?br, ?ty, ?cl]) =
      (scan_lines ?n ?t init_state [])\<lparr>updated :=
          updated (scan_lines ?n ?t init_state []) @ [?in, ?br, ?ty, ?cl]\<rparr>"
    using corrector_state_machine [of ?n ?t "[]" _ "[?in, ?br, ?ty, ?cl]"] start other by blast
  have c4: "startswith (strip ?ty) ''type''"
    using corrector_state_machine [of ?n ?t "[?nm, ?br]" ?ty _ "[?cl]"] edit by blast
  have c5: "seen_name (scan_lines ?n ?t init_state ([] @ [?nm]))"
    using corrector_state_machine [of ?n ?t "[]" ?nm] start(1) name by blast
  have c6: "in_patch (scan_lines ?n ?t init_state ([?nm] @ [?co] @ [?br]))"
    using corrector_state_machine [of ?n ?t "[?nm]" _ "[?co]" _ ?br] armed pass brace by blast
  from c2 have c2': "updated (scan_lines ?n ?t init_state [?in, ?br, ?ty, ?cl]) = [?in, ?br, ?ty, ?cl]"
    by (simp add: init_state_def)
  from c1 c2' c4 c5 c6 show ?thesis
    by simp
qed

section \<open>The rewrite of the named patch\<close>

lemma scan_named_block:
  assumes pre: "\<forall>k\<in>set pre. strip k \<noteq> n"
    and nm: "strip nm = n"
    and mid: "\<forall>k\<in>set mid. \<not> startswith (strip k) ''{''"
    and br: "startswith (strip br) ''{''" "strip br \<noteq> n"
    and body: "\<forall>k\<in>set body. \<not> startswith (strip k) ''type'' \<and> \<not> startswith (strip k) ''}''"
    and ty: "startswith (strip ty) ''type''"
    and body': "\<forall>k\<in>set body'. \<not> startswith (strip k) ''type'' \<and> \<not> startswith (strip k) ''}''"
    and tail: "tail = [] \<or> (startswith (strip (hd tail)) ''}'' \<and> (\<forall>k\<in>set (tl tail). strip k \<noteq> n))"
  shows "changed (scan_lines n t init_state (pre @ nm # mid @ br # body @ ty # body' @ tail))
    \<and> updated (scan_lines n t init_state (pre @ nm # mid @ br # body @ ty # body' @ tail))
        = pre @ nm # mid @ br # body @ rewrite_line t ty # body' @ tail"
proof -
  have h0: "scan_lines n t init_state pre =
      \<lparr>in_patch = False, seen_name = False, changed = False, updated = pre\<rparr>"
    using pre by (simp add: scan_lines_searching init_state_def)
  have h1: "scan_line n t \<lparr>in_patch = False, seen_name = False, changed = False, updated = u\<rparr> nm
      = \<lparr>in_patch = False, seen_name = True, changed = False, updated = u @ [nm]\<rparr>" for u
    using nm by (simp add: scan_line_name)
  have h2: "scan_lines n t \<lparr>in_patch = False, seen_name = True, changed = False, updated = u\<rparr> mid
      = \<lparr>in_patch = False, seen_name = True, changed = False, updated = u @ mid\<rparr>" for u
    using mid by (simp add: scan_lines_armed)
  have h3: "scan_line n t \<lparr>in_patch = False, seen_name = True, changed = False, updated = u\<rparr> br
      = \<lparr>in_patch = True, seen_name = False, changed = False, updated = u @ [br]\<rparr>" for u
    using br by (simp add: scan_line_enter)
  have h4: "scan_lines n t \<lparr>in_patch = True, seen_name = False, changed = False, updated = u\<rparr> body
      = \<lparr>in_patch = True, seen_name = False, changed = False, updated = u @ body\<rparr>" for u
    using body by (simp add: scan_lines_inside)
  have h5: "scan_line n t \<lparr>in_patch = True, seen_name = False, changed = False, updated = u\<rparr> ty
      = \<lparr>in_patch = True, seen_name = False, changed = True, updated = u @ [rewrite_line t ty]\<rparr>" for u
    using ty by (simp add: scan_line_type)
  have h6: "scan_lines n t \<lparr>in_patch = True, seen_name = False, changed = True, updated = u\<rparr> body'
      = \<lparr>in_patch = True, seen_name = False, changed = True, updated = u @ body'\<rparr>" for u
    using body' by (simp add: scan_lines_inside)
  have h7: "changed (scan_lines n t \<lparr>in_patch = True, seen_name = False, changed = True, updated = u\<rparr> tail)
      \<and> updated (scan_lines n t \<lparr>in_patch = True, seen_name = False, changed = True, updated = u\<rparr> tail)
          = u @ tail" for u
  proof (cases tail)
    case Nil
    then show ?thesis by simp
  next
    case (Cons cl rest)
    with tail have "startswith (strip cl) ''}''" and "\<forall>k\<in>set rest. strip k \<noteq> n"
      by simp_all
    then show ?thesis
      unfolding Cons by (simp add: scan_line_closing scan_lines_searching)
  qed
  have "scan_lines n t init_state (pre @ nm # mid @ br # body @ ty # body' @ tail) =
      scan_lines n t \<lparr>in_patch = True, seen_name = False, changed = True,
          updated = pre @ nm # mid @ br # body @ rewrite_line t ty # body'\<rparr> tail"
    by (simp add: scan_lines_append h0 h1 h2 h3 h4 h5 h6)
  with h7 show ?thesis
    by simp
qed

text \<open>
  Claim C1, as it stands, fails in two ways. In the first descriptor the block of the
  named patch holds a second line that starts with \<open>type\<close>: that line is rewritten too,
  so a line other than the attribute line differs from the input. In the second one the
  name occurs inside a block that is already open, a closing brace follows, and then an
  opening brace and a \<open>type\<close> line: the scan is not armed when it reads that brace, the
  \<open>type\<close> line is left as it is, and the run ends with the patch-correction error.
\<close>

theorem named_patch_type_rewritten_counterexample:
  "strip (''symmetryPlane'' @ [LF]) = ''symmetryPlane''
   \<and> startswith (strip (''{'' @ [LF])) ''{''
   \<and> startswith (strip (''    type patch;'' @ [LF])) ''type''
   \<and> updated (scan_lines ''symmetryPlane'' ''symmetry'' init_state
        (readlines (writelines [''symmetryPlane'' @ [LF], ''{'' @ [LF], ''    type patch;'' @ [LF],
           ''    typeName cut;'' @ [LF], ''}'' @ [LF]])))
      = [''symmetryPlane'' @ [LF], ''{'' @ [LF], ''    type symmetry;'' @ [LF],
           ''    type symmetry;'' @ [LF], ''}'' @ [LF]]
   \<and> ''    type symmetry;'' @ [LF] \<noteq> ''    typeName cut;'' @ [LF]
   \<and> updated (scan_lines ''symmetryPlane'' ''symmetry'' init_state
        (readlines (writelines [''symmetryPlane'' @ [LF], ''{'' @ [LF], ''symmetryPlane'' @ [LF],
           ''}'' @ [LF], ''{'' @ [LF], ''    type patch;'' @ [LF], ''}'' @ [LF]])))
      = [''symmetryPlane'' @ [LF], ''{'' @ [LF], ''symmetryPlane'' @ [LF],
           ''}'' @ [LF], ''{'' @ [LF], ''    type patch;'' @ [LF], ''}'' @ [LF]]
   \<and> snd (enforce_patch_type
        \<lparr>files = Map.empty(''system/blockMeshDict'' \<mapsto>
           writelines [''symmetryPlane'' @ [LF], ''{'' @ [LF], ''symmetryPlane'' @ [LF],
             ''}'' @ [LF], ''{'' @ [LF], ''    type patch;'' @ [LF], ''}'' @ [LF]]), written = []\<rparr>
        ''system/blockMeshDict'' ''symmetryPlane'' ''symmetry'')
      = Some (RuntimeError (failure_message ''system/blockMeshDict'' ''symmetryPlane'' ''symmetry''))"
  by code_simp

text \<open>
  Claim C1, amended. Let the lines read from the descriptor be: lines none of which is
  the patch name; a line whose stripped content is the patch name; lines that do not
  start with an opening brace; a line that starts with an opening brace (and is not the
  name); the lines of the block, of which exactly one starts with \<open>type\<close> and none
  with a closing brace; and then either nothing, or a line that starts with a closing
  brace followed by lines none of which is the patch name. Then \<open>enforce_patch_type\<close>
  succeeds, the \<open>type\<close> line is written as its own leading whitespace followed by
  \<open>type <patch_type>;\<close> and a line end (for the type \<open>symmetry\<close>:
  \<open>type symmetry;\<close>), and every other line is written as it was read, the lines of
  every other patch block among them.
\<close>

theorem named_patch_type_rewritten:
  assumes "files fs p = Some c"
    and "readlines c = pre @ nm # mid @ br # body @ ty # body' @ tail"
    and "\<forall>k\<in>set pre. strip k \<noteq> n"
    and "strip nm = n"
    and "\<forall>k\<in>set mid. \<not> startswith (strip k) ''{''"
    and "startswith (strip br) ''{''" and "strip br \<noteq> n"
    and "\<forall>k\<in>set body. \<not> startswith (strip k) ''type'' \<and> \<not> startswith (strip k) ''}''"
    and "startswith (strip ty) ''type''"
    and "\<forall>k\<in>set body'. \<not> startswith (strip k) ''type'' \<and> \<not> startswith (strip k) ''}''"
    and "tail = [] \<or> (startswith (strip (hd tail)) ''}'' \<and> (\<forall>k\<in>set (tl tail). strip k \<noteq> n))"
  shows "snd (enforce_patch_type fs p n t) = None
    \<and> files (fst (enforce_patch_type fs p n t)) p =
        Some (writelines (pre @ nm # mid @ br # body
          @ (takeWhile is_space ty @ ''type '' @ t @ '';'' @ [LF]) # body' @ tail))"
proof -
  have "changed (scan_lines n t init_state (readlines c))
    \<and> updated (scan_lines n t init_state (readlines c))
        = pre @ nm # mid @ br # body @ rewrite_line t ty # body' @ tail"
    unfolding assms(2) using assms(3-) by (rule scan_named_block)
  then show ?thesis
    using assms(1,9) by (simp add: snd_enforce_patch_type files_enforce_patch_type rewrite_line_type)
qed

theorem named_patch_type_rewritten_witness:
  "snd (enforce_patch_type
      \<lparr>files = Map.empty(''system/blockMeshDict'' \<mapsto> writelines
         [''boundary'' @ [LF], ''('' @ [LF], ''    inlet'' @ [LF], ''    {'' @ [LF],
          ''        type patch;'' @ [LF], ''    }'' @ [LF],
          ''    symmetryPlane'' @ [LF], ''    {'' @ [LF], ''        type patch;'' @ [LF],
          ''        faces ((0 1 2 3));'' @ [LF], ''    }'' @ [LF], '');'' @ [LF]]), written = []\<rparr>
      ''system/blockMeshDict'' ''symmetryPlane'' ''symmetry'') = None
   \<and> files (fst (enforce_patch_type
      \<lparr>files = Map.empty(''system/blockMeshDict'' \<mapsto> writelines
         [''boundary'' @ [LF], ''('' @ [LF], ''    inlet'' @ [LF], ''    {'' @ [LF],
          ''        type patch;'' @ [LF], ''    }'' @ [LF],
          ''    symmetryPlane'' @ [LF], ''    {'' @ [LF], ''        type patch;'' @ [LF],
          ''        faces ((0 1 2 3));'' @ [LF], ''    }'' @ [LF], '');'' @ [LF]]), written = []\<rparr>
      ''system/blockMeshDict'' ''symmetryPlane'' ''symmetry'')) ''system/blockMeshDict''
     = Some (writelines
         [''boundary'' @ [LF], ''('' @ [LF], ''    inlet'' @ [LF], ''    {'' @ [LF],
          ''        type patch;'' @ [LF], ''    }'' @ [LF],
          ''    symmetryPlane'' @ [LF], ''    {'' @ [LF], ''        type symmetry;'' @ [LF],
          ''        faces ((0 1 2 3));'' @ [LF], ''    }'' @ [LF], '');'' @ [LF]])"
proof -
  let ?pre = "[''boundary'' @ [LF], ''('' @ [LF], ''    inlet'' @ [LF], ''    {'' @ [LF],
          ''        type patch;'' @ [LF], ''    }'' @ [LF]]"
  let ?nm = "''    symmetryPlane'' @ [LF]" and ?br = "''    {'' @ [LF]"
  let ?ty = "''        type patch;'' @ [LF]"
  let ?body' = "[''        faces ((0 1 2 3));'' @ [LF]]"
  let ?tail = "[''    }'' @ [LF], '');'' @ [LF]]"
  let ?c = "writelines
         [''boundary'' @ [LF], ''('' @ [LF], ''    inlet'' @ [LF], ''    {'' @ [LF],
          ''        type patch;'' @ [LF], ''    }'' @ [LF],
          ''    symmetryPlane'' @ [LF], ''    {'' @ [LF], ''        type patch;'' @ [LF],
          ''        faces ((0 1 2 3));'' @ [LF], ''    }'' @ [LF], '');'' @ [LF]]"
  let ?fs = "\<lparr>files = Map.empty(''system/blockMeshDict'' \<mapsto> ?c), written = []\<rparr>"
  have f: "files ?fs ''system/blockMeshDict'' = Some ?c"
    by simp
  have r: "readlines ?c = ?pre @ ?nm # [] @ ?br # [] @ ?ty # ?body' @ ?tail"
    by code_simp
  have a1: "\<forall>k\<in>set ?pre. strip k \<noteq> ''symmetryPlane''"
    by code_simp
  have a2: "strip ?nm = ''symmetryPlane''"
    by code_simp
  have a3: "\<forall>k\<in>set []. \<not> startswith (strip k) ''{''"
    by simp
  have a4: "startswith (strip ?br) ''{''" and a5: "strip ?br \<noteq> ''symmetryPlane''"
    by code_simp+
  have a6: "\<forall>k\<in>set []. \<not> startswith (strip k) ''type'' \<and> \<not> startswith (strip k) ''}''"
    by simp
  have a7: "startswith (strip ?ty) ''type''"
    by code_simp
  have a8: "\<forall>k\<in>set ?body'. \<not> startswith (strip k) ''type'' \<and> \<not> startswith (strip k) ''}''"
    by code_simp
  have a9: "?tail = [] \<or> (startswith (strip (hd ?tail)) ''}''
      \<and> (\<forall>k\<in>set (tl ?tail). strip k \<noteq> ''symmetryPlane''))"
    by code_simp
  have ind: "takeWhile is_space ?ty = ''        ''"
    by code_simp
  note named_patch_type_rewritten [OF f r a1 a2 a3 a4 a5 a6 a7 a8 a9, of "''symmetry''"]
  then show ?thesis
    unfolding ind by simp
qed

section \<open>Reading back what was written\<close>

lemma proper_lines_Cons:
  "proper_lines (l # ls) =
     (l \<noteq> [] \<and> LF \<notin> set (butlast l) \<and> (ls = [] \<or> last l = LF) \<and> proper_lines ls)"
  by (cases ls) auto

lemma split_lines_line:
  "LF \<notin> set b \<Longrightarrow> split_lines (b @ LF # rest) = (b @ [LF]) # split_lines rest"
  by (induction b) auto

lemma split_lines_last: "l \<noteq> [] \<Longrightarrow> LF \<notin> set l \<Longrightarrow> split_lines l = [l]"
proof (induction l)
  case Nil
  then show ?case by simp
next
  case (Cons c l)
  then show ?case by (cases l) auto
qed

lemma split_lines_concat: "proper_lines ls \<Longrightarrow> split_lines (concat ls) = ls"
proof (induction ls)
  case Nil
  then show ?case by simp
next
  case (Cons l ls)
  from Cons.prems have l: "l \<noteq> []" "LF \<notin> set (butlast l)" "ls = [] \<or> last l = LF"
    and p: "proper_lines ls"
    by (simp_all add: proper_lines_Cons)
  from l(1) obtain b x where lb: "l = b @ [x]"
    by (cases l rule: rev_cases) auto
  with l(2) have nb: "LF \<notin> set b"
    by simp
  show ?case
  proof (cases "x = LF")
    case True
    have "split_lines (b @ LF # concat ls) = (b @ [LF]) # split_lines (concat ls)"
      using nb by (rule split_lines_line)
    with True lb Cons.IH [OF p] show ?thesis
      by simp
  next
    case False
    with l(3) lb have e: "ls = []"
      by simp
    from False nb lb have "LF \<notin> set l"
      by simp
    with l(1) e show ?thesis
      by (simp add: split_lines_last)
  qed
qed

lemma proper_split_lines: "proper_lines (split_lines s)"
proof (induction s)
  case Nil
  then show ?case by simp
next
  case (Cons c s)
  show ?case
  proof (cases "c = LF")
    case True
    with Cons show ?thesis
      by (simp add: proper_lines_Cons)
  next
    case False
    show ?thesis
    proof (cases "split_lines s")
      case Nil
      with False show ?thesis by simp
    next
      case (Cons l ls)
      with Cons.IH have "l \<noteq> []" "LF \<notin> set (butlast l)" "ls = [] \<or> last l = LF" "proper_lines ls"
        by (simp_all add: proper_lines_Cons)
      with False Cons show ?thesis
        by (simp add: proper_lines_Cons)
    qed
  qed
qed

lemma not_space_t: "\<not> is_space CHR ''t''"
  by (simp add: is_space_def)

lemma strip_rewritten:
  assumes "\<forall>c\<in>set ws. is_space c"
  shows "strip (ws @ ''type '' @ t @ '';'' @ [LF]) = ''type '' @ t @ '';''"
proof -
  have "lstrip (ws @ ''type '' @ t @ '';'' @ [LF]) = ''type '' @ t @ '';'' @ [LF]"
    using assms by (simp add: lstrip_def dropWhile_append2 not_space_t)
  moreover have "rstrip ((''type '' @ t @ '';'') @ [LF]) = ''type '' @ t @ '';''"
    by (simp add: rstrip_def is_space_def)
  ultimately show ?thesis
    by (simp add: strip_def)
qed

lemma takeWhile_rewritten:
  assumes "\<forall>c\<in>set ws. is_space c"
  shows "takeWhile is_space (ws @ ''type '' @ t @ '';'' @ [LF]) = ws"
  using assms by (simp add: takeWhile_append2 not_space_t)

lemma rewrite_line_idem:
  assumes "startswith (strip l) ''type''"
  shows "startswith (strip (rewrite_line t l)) ''type''"
    and "rewrite_line t (rewrite_line t l) = rewrite_line t l"
proof -
  let ?ws = "takeWhile is_space l"
  have ws: "\<forall>c\<in>set ?ws. is_space c"
    by (auto dest: set_takeWhileD)
  have r: "rewrite_line t l = ?ws @ ''type '' @ t @ '';'' @ [LF]"
    using assms by (rule rewrite_line_type)
  show ty: "startswith (strip (rewrite_line t l)) ''type''"
    unfolding r strip_rewritten [OF ws] by (simp add: startswith_def)
  show "rewrite_line t (rewrite_line t l) = rewrite_line t l"
    unfolding rewrite_line_type [OF ty] unfolding r takeWhile_rewritten [OF ws] ..
qed

lemma scan_line_idem:
  "scan_line n t s (if in_patch s \<and> startswith (strip l) ''type'' then rewrite_line t l else l)
     = scan_line n t s l"
  by (simp add: scan_line_type rewrite_line_idem)

lemma scan_lines_idem:
  "updated (scan_lines n t s ls) = updated s @ outs \<Longrightarrow>
   scan_lines n t s outs = scan_lines n t s ls"
proof (induction ls arbitrary: s outs)
  case Nil
  then show ?case by simp
next
  case (Cons l ls)
  let ?x = "if in_patch s \<and> startswith (strip l) ''type'' then rewrite_line t l else l"
  obtain outs' where o: "updated (scan_lines n t (scan_line n t s l) ls)
      = updated (scan_line n t s l) @ outs'"
    using updated_scan_lines by blast
  with Cons.prems have "outs = ?x # outs'"
    by (simp add: updated_scan_line)
  moreover have "scan_lines n t (scan_line n t s l) outs' = scan_lines n t (scan_line n t s l) ls"
    using o by (rule Cons.IH)
  ultimately show ?case
    by (simp only: scan_lines.simps scan_line_idem)
qed

lemma proper_rewrite_line:
  assumes "startswith (strip l) ''type''" and "l \<noteq> []" and "LF \<notin> set (butlast l)" and "LF \<notin> set t"
  shows "rewrite_line t l \<noteq> [] \<and> LF \<notin> set (butlast (rewrite_line t l))
    \<and> last (rewrite_line t l) = LF"
proof -
  have "startswith (dropWhile is_space l) ''type''"
    using assms(1) by (rule startswith_strip)
  then obtain r where d: "dropWhile is_space l = ''type'' @ r"
    unfolding startswith_iff ..
  have "l = takeWhile is_space l @ dropWhile is_space l"
    by simp
  then have "butlast l = takeWhile is_space l @ butlast (dropWhile is_space l)"
    using d by (metis butlast_append append_is_Nil_conv list.distinct(1) append_Cons)
  with assms(3) have "LF \<notin> set (takeWhile is_space l)"
    by (metis Un_iff set_append)
  moreover have "butlast (rewrite_line t l) = takeWhile is_space l @ ''type '' @ t @ '';''"
    unfolding rewrite_line_type [OF assms(1)]
    by (simp add: butlast_append)
  ultimately show ?thesis
    using assms(4) by (simp add: rewrite_line_type [OF assms(1)])
qed

lemma proper_updated:
  "proper_lines ls \<Longrightarrow> LF \<notin> set t \<Longrightarrow>
   \<exists>outs. updated (scan_lines n t s ls) = updated s @ outs \<and> length outs = length ls
      \<and> proper_lines outs"
proof (induction ls arbitrary: s)
  case Nil
  then show ?case by simp
next
  case (Cons l ls)
  let ?x = "if in_patch s \<and> startswith (strip l) ''type'' then rewrite_line t l else l"
  from Cons.prems(1) have l: "l \<noteq> []" "LF \<notin> set (butlast l)" "ls = [] \<or> last l = LF"
    and p: "proper_lines ls"
    by (simp_all add: proper_lines_Cons)
  from Cons.IH [OF p Cons.prems(2), of "scan_line n t s l"] obtain outs where
    o: "updated (scan_lines n t (scan_line n t s l) ls) = updated (scan_line n t s l) @ outs"
    "length outs = length ls" "proper_lines outs"
    by blast
  have x: "?x \<noteq> [] \<and> LF \<notin> set (butlast ?x) \<and> (ls = [] \<or> last ?x = LF)"
    using l proper_rewrite_line [of l t] Cons.prems(2) by auto
  from o(2) have "(outs = []) = (ls = [])"
    by auto
  with x o(3) have "proper_lines (?x # outs)"
    by (simp only: proper_lines_Cons) simp
  moreover have "updated (scan_lines n t s (l # ls)) = updated s @ ?x # outs"
    using o(1) by (simp add: updated_scan_line)
  moreover have "length (?x # outs) = length (l # ls)"
    using o(2) by simp
  ultimately show ?case
    by blast
qed

lemma no_CR_universal_newlines: "CR \<notin> set (universal_newlines s)"
  by (induction s rule: universal_newlines.induct) auto

lemma no_CR_readlines: "l \<in> set (readlines c) \<Longrightarrow> CR \<notin> set l"
proof -
  assume "l \<in> set (readlines c)"
  then have "set l \<subseteq> set (concat (readlines c))"
    by auto
  then show ?thesis
    using no_CR_universal_newlines [of c]
    by (auto simp: readlines_def concat_split_lines)
qed

lemma no_CR_rewrite_line:
  "startswith (strip l) ''type'' \<Longrightarrow> CR \<notin> set l \<Longrightarrow> CR \<notin> set t \<Longrightarrow>
   CR \<notin> set (rewrite_line t l)"
  by (auto simp: rewrite_line_type dest: set_takeWhileD)

lemma no_CR_updated:
  assumes "\<forall>l\<in>set ls. CR \<notin> set l" and "CR \<notin> set t"
  shows "\<forall>l\<in>set (updated (scan_lines n t init_state ls)). CR \<notin> set l"
proof -
  have "CR \<notin> set (updated (scan_lines n t init_state ls) ! i)" if "i < length ls" for i
  proof -
    from that assms(1) have "CR \<notin> set (ls ! i)"
      by simp
    with that assms(2) show ?thesis
      by (simp add: updated_nth_init no_CR_rewrite_line)
  qed
  then show ?thesis
    by (simp add: all_set_conv_all_nth length_updated_init)
qed

lemma readlines_writelines_updated:
  assumes "LF \<notin> set t" and "CR \<notin> set t"
  shows "readlines (writelines (updated (scan_lines n t init_state (readlines c))))
     = updated (scan_lines n t init_state (readlines c))"
proof -
  let ?out = "updated (scan_lines n t init_state (readlines c))"
  have "\<forall>l\<in>set ?out. CR \<notin> set l"
    using assms(2) by (intro no_CR_updated) (simp_all add: no_CR_readlines)
  then have "CR \<notin> set (concat ?out)"
    by simp
  then have u: "universal_newlines (concat ?out) = concat ?out"
    by (rule universal_newlines_id)
  have "proper_lines (readlines c)"
    by (simp add: readlines_def proper_split_lines)
  from proper_updated [OF this assms(1), of n init_state] have "proper_lines ?out"
    by (simp add: init_state_def)
  then have "split_lines (concat ?out) = ?out"
    by (rule split_lines_concat)
  with u show ?thesis
    by (simp add: readlines_def writelines_def)
qed

lemma rescan_updated:
  "scan_lines n t init_state (updated (scan_lines n t init_state ls))
     = scan_lines n t init_state ls"
  by (rule scan_lines_idem) (simp add: init_state_def)

text \<open>
  Claim C4, as it stands, fails for a type that holds a line end (a YAML block scalar
  gives \<open>"symmetry\n"\<close>): the rewritten line is then read back as two lines, the second
  run rewrites the first of them again, and the file grows by a line at every run.
\<close>

theorem line_end_in_type_counterexample:
  "files (fst (enforce_patch_type (fst (enforce_patch_type
      \<lparr>files = Map.empty(''system/blockMeshDict'' \<mapsto> writelines
         [''symmetryPlane'' @ [LF], ''{'' @ [LF], ''type patch;'' @ [LF], ''}'' @ [LF]]), written = []\<rparr>
      ''system/blockMeshDict'' ''symmetryPlane'' (''symmetry'' @ [LF])))
      ''system/blockMeshDict'' ''symmetryPlane'' (''symmetry'' @ [LF]))) ''system/blockMeshDict''
     = Some (writelines [''symmetryPlane'' @ [LF], ''{'' @ [LF], ''type symmetry'' @ [LF],
          '';'' @ [LF], '';'' @ [LF], ''}'' @ [LF]])
   \<and> files (fst (enforce_patch_type
      \<lparr>files = Map.empty(''system/blockMeshDict'' \<mapsto> writelines
         [''symmetryPlane'' @ [LF], ''{'' @ [LF], ''type patch;'' @ [LF], ''}'' @ [LF]]), written = []\<rparr>
      ''system/blockMeshDict'' ''symmetryPlane'' (''symmetry'' @ [LF]))) ''system/blockMeshDict''
     = Some (writelines [''symmetryPlane'' @ [LF], ''{'' @ [LF], ''type symmetry'' @ [LF],
          '';'' @ [LF], ''}'' @ [LF]])
   \<and> writelines [''symmetryPlane'' @ [LF], ''{'' @ [LF], ''type symmetry'' @ [LF],
          '';'' @ [LF], '';'' @ [LF], ''}'' @ [LF]]
      \<noteq> writelines [''symmetryPlane'' @ [LF], ''{'' @ [LF], ''type symmetry'' @ [LF],
          '';'' @ [LF], ''}'' @ [LF]]"
  by code_simp

text \<open>
  Claim C4, amended. For a desired type that holds no line end (\<open>\n\<close> or \<open>\r\<close>), for
  every store, path and patch name: a second run of \<open>enforce_patch_type\<close> on the result
  of a first one leaves every file as the first run left it, and ends the way the first
  one did (normally, or with the same error).
\<close>

theorem enforce_patch_type_idempotent:
  assumes "LF \<notin> set t" and "CR \<notin> set t"
  shows "files (fst (enforce_patch_type (fst (enforce_patch_type fs p n t)) p n t))
           = files (fst (enforce_patch_type fs p n t))
    \<and> snd (enforce_patch_type (fst (enforce_patch_type fs p n t)) p n t)
           = snd (enforce_patch_type fs p n t)"
proof (cases "files fs p")
  case None
  then show ?thesis
    by (simp add: enforce_patch_type_def)
next
  case (Some c)
  let ?out = "updated (scan_lines n t init_state (readlines c))"
  let ?fs1 = "fst (enforce_patch_type fs p n t)"
  have f1: "files ?fs1 p = Some (writelines ?out)"
    using Some by (simp add: files_enforce_patch_type)
  have r: "readlines (writelines ?out) = ?out"
    using assms by (rule readlines_writelines_updated)
  have s: "scan_lines n t init_state (readlines (writelines ?out))
      = scan_lines n t init_state (readlines c)"
    unfolding r by (rule rescan_updated)
  have "files (fst (enforce_patch_type ?fs1 p n t)) = (files ?fs1)(p \<mapsto> writelines ?out)"
    unfolding files_enforce_patch_type [OF f1] s ..
  also have "\<dots> = files ?fs1"
    using f1 by (simp add: fun_upd_idem_iff)
  finally have a: "files (fst (enforce_patch_type ?fs1 p n t)) = files ?fs1" .
  have b: "snd (enforce_patch_type ?fs1 p n t) = snd (enforce_patch_type fs p n t)"
    unfolding snd_enforce_patch_type [OF f1] snd_enforce_patch_type [OF Some] s ..
  from a b show ?thesis ..
qed

theorem enforce_patch_type_idempotent_witness:
  "files (fst (enforce_patch_type (fst (enforce_patch_type
      \<lparr>files = Map.empty(''system/blockMeshDict'' \<mapsto> writelines
         [''symmetryPlane'' @ [LF], ''{'' @ [LF], ''    type patch;'' @ [LF], ''}'' @ [LF]]), written = []\<rparr>
      ''system/blockMeshDict'' ''symmetryPlane'' ''symmetry''))
      ''system/blockMeshDict'' ''symmetryPlane'' ''symmetry''))
   = files (fst (enforce_patch_type
      \<lparr>files = Map.empty(''system/blockMeshDict'' \<mapsto> writelines
         [''symmetryPlane'' @ [LF], ''{'' @ [LF], ''    type patch;'' @ [LF], ''}'' @ [LF]]), written = []\<rparr>
      ''system/blockMeshDict'' ''symmetryPlane'' ''symmetry''))"
proof -
  have "LF \<notin> set ''symmetry''" and "CR \<notin> set ''symmetry''"
    by simp_all
  then show ?thesis
    using enforce_patch_type_idempotent [of "''symmetry''"] by blast
qed

section \<open>The lines written, one by one\<close>




end
